theory Spec2Isabelle
  imports Main "HOL-Library.Multiset" "HOL-Library.Finite_Map"
begin

section \<open>Data model of package game\<close>

text \<open>
  The Go structs \<^verbatim>\<open>Player\<close>, \<^verbatim>\<open>Round\<close> and \<^verbatim>\<open>Game\<close> become records. A slice is a
  list of its visible elements: every slice of a game (the pool, each hand, the players,
  the rounds) owns its backing array, so the in-place writes of the code are list
  updates. The one place where the code reads a backing array beyond the current length
  of its slice, the removal loop of \<^verbatim>\<open>Play\<close>, keeps array and length apart. A Go map is
  a finite map, and \<^verbatim>\<open>len(m)\<close> is the cardinality of its domain; a nil map and an empty
  map are the same value. The field \<^verbatim>\<open>Punchlines\<close> of \<^verbatim>\<open>Game\<close> is called
  \<open>GamePunchlines\<close>, since \<^verbatim>\<open>Player\<close> has a field of the same name. \<^verbatim>\<open>Created\<close> is a
  time in nanoseconds. Go's \<^verbatim>\<open>int\<close> is an unbounded \<open>int\<close>, with the 64-bit wrap-around
  written out at the one product that can overflow (\<open>wrap64\<close> in \<open>createRounds\<close>).
  A parameter that the code calls \<^verbatim>\<open>card\<close> is called \<open>crd\<close> here.
\<close>

type_synonym Card = string

record Player =
  Name :: string
  Punchlines :: "Card list"

record Round =
  Setup :: "Card \<times> Card"
  Plays :: "(string, Card) fmap"
  Votes :: "(string, Card) fmap"

record Game =
  ID :: int
  Players :: "Player list"
  GamePunchlines :: "Card list"
  Rounds :: "Round list"
  RoundsRemaining :: int
  CurrentAction :: string
  Created :: int

text \<open>
  The error values of the package, and the run-time panics the code can raise. A panic
  is named by the expression that raises it: indexing \<^verbatim>\<open>g.Rounds\<close>, indexing a hand,
  \<^verbatim>\<open>rand.Intn\<close> on a non-positive bound, \<^verbatim>\<open>make\<close> with a negative length, and reading a
  field through a nil \<^verbatim>\<open>*Game\<close>. \<open>ErrFieldCount\<close> is \<^verbatim>\<open>csv.ErrFieldCount\<close>, the error of
  the csv reader for a record with the wrong number of fields. \<open>ErrOther\<close> carries the
  message of an error made elsewhere (\<^verbatim>\<open>errors.New\<close> of a caller, another error of the
  csv reader, the object store).
  The methods have pointer receivers and mutate the game in place, so each one returns
  the game as it stands when the call ends, together with the error or panic, if any.
\<close>

datatype error =
    ErrTooFewSetups
  | ErrTooFewPunchlines
  | ErrNoGamesAvailable
  | ErrMalformedCSV
  | ErrPlayerNameExists
  | ErrFieldCount
  | ErrOther string
  | PanicIndexRounds
  | PanicIndexPunchlines
  | PanicIntn
  | PanicMakeSlice
  | PanicNilGame

definition handSize :: int where
  "handSize = 6"

definition PLAY :: string where
  "PLAY = ''play''"

definition VOTE :: string where
  "VOTE = ''vote''"

text \<open>
  Randomness: every function of the package that draws random numbers first reseeds the
  generator from the clock, so each call gets a stream of its own, here a parameter
  \<open>rnd\<close>. \<^verbatim>\<open>rand.Intn(n)\<close> is the head of the stream modulo \<open>n\<close>, and panics when
  \<open>n\<close> is not positive.
\<close>

type_synonym rand = "nat \<Rightarrow> nat"

definition Intn :: "rand \<Rightarrow> nat \<Rightarrow> nat option" where
  "Intn rnd n = (if n = 0 then None else Some (rnd 0 mod n))"

definition advance :: "rand \<Rightarrow> rand" where
  "advance rnd = (\<lambda>k. rnd (Suc k))"

text \<open>
  The swap-and-shrink idiom of \<^verbatim>\<open>dealPunchlines\<close>:
  \<^verbatim>\<open>s[i] = s[len(s)-1]; s = s[:len(s)-1]\<close>.
\<close>

definition swapRemove :: "nat \<Rightarrow> 'a list \<Rightarrow> 'a list" where
  "swapRemove i xs = take (length xs - 1) (xs[i := xs ! (length xs - 1)])"

subsection \<open>dealPunchlines\<close>

text \<open>
  \<open>dealCards\<close> is the inner loop (\<^verbatim>\<open>for i := 0; i < cardsNeeded; i++\<close>), run for the
  number of iterations left; \<open>dealPlayers\<close> is the loop over the players, which
  returns at the first player whose \<^verbatim>\<open>cardsNeeded\<close> exceeds the pool.
\<close>

fun dealCards :: "nat \<Rightarrow> rand \<Rightarrow> Card list \<Rightarrow> Card list
    \<Rightarrow> error option \<times> rand \<times> Card list \<times> Card list" where
  "dealCards 0 rnd pool hand = (None, rnd, pool, hand)"
| "dealCards (Suc n) rnd pool hand =
     (case Intn rnd (length pool) of
        None \<Rightarrow> (Some PanicIntn, rnd, pool, hand)
      | Some index \<Rightarrow>
          dealCards n (advance rnd) (swapRemove index pool) (hand @ [pool ! index]))"

fun dealPlayers :: "rand \<Rightarrow> Card list \<Rightarrow> Player list
    \<Rightarrow> error option \<times> Card list \<times> Player list" where
  "dealPlayers rnd pool [] = (None, pool, [])"
| "dealPlayers rnd pool (p # ps) =
     (let cardsNeeded = handSize - int (length (Punchlines p)) in
      if cardsNeeded > int (length pool) then (Some ErrTooFewPunchlines, pool, p # ps)
      else
        (case dealCards (nat cardsNeeded) rnd pool (Punchlines p) of
           (Some e, rnd', pool', hand') \<Rightarrow> (Some e, pool', p\<lparr>Punchlines := hand'\<rparr> # ps)
         | (None, rnd', pool', hand') \<Rightarrow>
             (case dealPlayers rnd' pool' ps of
                (e, pool'', ps') \<Rightarrow> (e, pool'', p\<lparr>Punchlines := hand'\<rparr> # ps'))))"

definition dealPunchlines :: "rand \<Rightarrow> Game \<Rightarrow> error option \<times> Game" where
  "dealPunchlines rnd g =
     (case dealPlayers rnd (GamePunchlines g) (Players g) of
        (e, pool', ps') \<Rightarrow> (e, g\<lparr>Players := ps', GamePunchlines := pool'\<rparr>))"

subsection \<open>AddPlayer, Play and Vote\<close>

text \<open>
  \<^verbatim>\<open>Play\<close> and \<^verbatim>\<open>Vote\<close> call \<^verbatim>\<open>g.dealPunchlines()\<close> as a statement: the error it
  returns is dropped, a panic is not.
\<close>

definition isPanic :: "error \<Rightarrow> bool" where
  "isPanic e = (e = PanicIndexRounds \<or> e = PanicIndexPunchlines \<or> e = PanicIntn
                \<or> e = PanicMakeSlice \<or> e = PanicNilGame)"

definition discardError :: "error option \<Rightarrow> error option" where
  "discardError r = (case r of None \<Rightarrow> None | Some e \<Rightarrow> if isPanic e then Some e else None)"

definition AddPlayer :: "rand \<Rightarrow> Player \<Rightarrow> Game \<Rightarrow> error option \<times> Game" where
  "AddPlayer rnd player g =
     (if list_ex (\<lambda>p. Name p = Name player) (Players g) then (Some ErrPlayerNameExists, g)
      else dealPunchlines rnd (g\<lparr>Players := Players g @ [player]\<rparr>))"

text \<open>
  The removal loop of \<^verbatim>\<open>Play\<close>. \<open>rmHand\<close> is the inner loop over one hand: the
  \<^verbatim>\<open>range\<close> clause fixes the number \<open>n\<close> of iterations and the backing array \<open>arr\<close>
  when the loop starts and reads \<open>arr ! j\<close> at each step, while \<open>len\<close> is the current
  length of \<^verbatim>\<open>g.Players[i].Punchlines\<close>, which the loop body shrinks; writing at
  \<open>j \<ge> len\<close> panics. \<open>rmUsedPunchline\<close> is the outer loop over all the players.
\<close>

function rmHand :: "Card \<Rightarrow> nat \<Rightarrow> nat \<Rightarrow> Card list \<Rightarrow> nat \<Rightarrow> error option \<times> Card list" where
  "rmHand crd n j arr len =
     (if j < n then
        (if arr ! j = crd then
           (if j < len then rmHand crd n (Suc j) (arr[j := arr ! (len - 1)]) (len - 1)
            else (Some PanicIndexPunchlines, take len arr))
         else rmHand crd n (Suc j) arr len)
      else (None, take len arr))"
  by pat_completeness auto
termination
  by (relation "measure (\<lambda>(crd, n, j, arr, len). n - j)") auto

declare rmHand.simps [simp del]

fun rmUsedPunchline :: "Card \<Rightarrow> Player list \<Rightarrow> error option \<times> Player list" where
  "rmUsedPunchline crd [] = (None, [])"
| "rmUsedPunchline crd (p # ps) =
     (case rmHand crd (length (Punchlines p)) 0 (Punchlines p) (length (Punchlines p)) of
        (Some e, h) \<Rightarrow> (Some e, p\<lparr>Punchlines := h\<rparr> # ps)
      | (None, h) \<Rightarrow>
          (case rmUsedPunchline crd ps of (e, ps') \<Rightarrow> (e, p\<lparr>Punchlines := h\<rparr> # ps')))"

definition Play :: "rand \<Rightarrow> string \<Rightarrow> Card \<Rightarrow> Game \<Rightarrow> error option \<times> Game" where
  "Play rnd playerName crd g =
     (let i = RoundsRemaining g - 1 in
      if i < 0 \<or> int (length (Rounds g)) \<le> i then (Some PanicIndexRounds, g)
      else
        let round = (Rounds g ! nat i)\<lparr>Plays := fmupd playerName crd (Plays (Rounds g ! nat i))\<rparr>;
            g1 = g\<lparr>Rounds := (Rounds g)[nat i := round]\<rparr>;
            g2 = (if fcard (fmdom (Plays round)) = length (Players g1)
                  then g1\<lparr>CurrentAction := VOTE\<rparr> else g1)
        in (case rmUsedPunchline crd (Players g2) of
              (Some e, ps) \<Rightarrow> (Some e, g2\<lparr>Players := ps\<rparr>)
            | (None, ps) \<Rightarrow>
                (case dealPunchlines rnd (g2\<lparr>Players := ps\<rparr>) of
                   (e, g3) \<Rightarrow> (discardError e, g3))))"

definition Vote :: "rand \<Rightarrow> string \<Rightarrow> Card \<Rightarrow> Game \<Rightarrow> error option \<times> Game" where
  "Vote rnd playerName crd g =
     (let i = RoundsRemaining g - 1 in
      if i < 0 \<or> int (length (Rounds g)) \<le> i then (Some PanicIndexRounds, g)
      else
        let round = (Rounds g ! nat i)\<lparr>Votes := fmupd playerName crd (Votes (Rounds g ! nat i))\<rparr>;
            g1 = g\<lparr>Rounds := (Rounds g)[nat i := round]\<rparr>
        in if fcard (fmdom (Votes round)) = length (Players g1) then
             (case dealPunchlines rnd (g1\<lparr>RoundsRemaining := RoundsRemaining g1 - 1\<rparr>) of
                (e, g2) \<Rightarrow>
                  (case discardError e of
                     Some p \<Rightarrow> (Some p, g2)
                   | None \<Rightarrow> (None, g2\<lparr>CurrentAction := PLAY\<rparr>)))
           else (None, g1))"

subsection \<open>createRounds\<close>

text \<open>
  The loop of \<^verbatim>\<open>createRounds\<close> draws indices until it has \<^verbatim>\<open>setupsNeeded\<close> different
  ones; a draw of an index already in \<^verbatim>\<open>setupsMap\<close> repeats the iteration, so the loop
  need not end. \<open>fuel\<close> bounds the number of draws: the result is \<open>None\<close> when the loop
  has not returned within \<open>fuel\<close> draws. \<open>i\<close> is the loop counter at the head of the
  loop. \<^verbatim>\<open>make([]Round, n)\<close> panics for a negative \<open>n\<close>; a length that memory cannot
  hold is outside the model.
\<close>

definition wrap64 :: "int \<Rightarrow> int" where
  "wrap64 x = (x + 2 ^ 63) mod 2 ^ 64 - 2 ^ 63"

definition zeroRound :: Round where
  "zeroRound = \<lparr>Setup = ([], []), Plays = fmempty, Votes = fmempty\<rparr>"

definition setSetup :: "nat \<Rightarrow> Card \<Rightarrow> Round \<Rightarrow> Round" where
  "setSetup k c r = r\<lparr>Setup := (if k = 0 then (c, snd (Setup r)) else (fst (Setup r), c))\<rparr>"

fun createRounds_loop :: "nat \<Rightarrow> rand \<Rightarrow> Card list \<Rightarrow> int \<Rightarrow> nat \<Rightarrow> (nat, Card) fmap
    \<Rightarrow> Round list \<Rightarrow> (error option \<times> Round list) option" where
  "createRounds_loop 0 rnd setups setupsNeeded i setupsMap rounds =
     (if int i < setupsNeeded then None else Some (None, rounds))"
| "createRounds_loop (Suc fuel) rnd setups setupsNeeded i setupsMap rounds =
     (if int i < setupsNeeded then
        (case Intn rnd (length setups) of
           None \<Rightarrow> Some (Some PanicIntn, rounds)
         | Some index \<Rightarrow>
             if fmlookup setupsMap index \<noteq> None then
               createRounds_loop fuel (advance rnd) setups setupsNeeded i setupsMap rounds
             else if length rounds \<le> i div 2 then Some (Some PanicIndexRounds, rounds)
             else
               createRounds_loop fuel (advance rnd) setups setupsNeeded (Suc i)
                 (fmupd index (setups ! index) setupsMap)
                 (rounds[i div 2 := setSetup (i mod 2) (setups ! index) (rounds ! (i div 2))]))
      else Some (None, rounds))"

definition createRounds :: "nat \<Rightarrow> rand \<Rightarrow> Card list \<Rightarrow> Game \<Rightarrow> (error option \<times> Game) option" where
  "createRounds fuel rnd setups g =
     (let setupsNeeded = wrap64 (RoundsRemaining g * 2) in
      if setupsNeeded > int (length setups) then Some (Some ErrTooFewSetups, g)
      else if RoundsRemaining g < 0 then Some (Some PanicMakeSlice, g)
      else
        (case createRounds_loop fuel rnd setups setupsNeeded 0 fmempty
                (replicate (nat (RoundsRemaining g)) zeroRound) of
           None \<Rightarrow> None
         | Some (e, rounds) \<Rightarrow> Some (e, g\<lparr>Rounds := rounds\<rparr>)))"

subsection \<open>findID\<close>

text \<open>
  The package-level map \<^verbatim>\<open>games\<close> holds pointers, and \<^verbatim>\<open>findID\<close> stores a nil pointer
  under the identifier it hands out: an entry is \<open>Some None\<close> then. \<open>rnd i\<close> is the
  number the generator yields at probe \<open>i\<close> and \<open>now i\<close> the clock read there.
  \<^verbatim>\<open>t.Add(d).After(u)\<close> is \<open>t + d > u\<close>.
\<close>

type_synonym registry = "(int, Game option) fmap"

definition maxAttempts :: nat where
  "maxAttempts = 100"

definition hour :: int where
  "hour = 3600 * 1000000000"

function findID_loop :: "nat \<Rightarrow> rand \<Rightarrow> (nat \<Rightarrow> int) \<Rightarrow> registry \<Rightarrow> (error + int) \<times> registry" where
  "findID_loop i rnd now games =
     (if i < maxAttempts then
        (let id = int (rnd i mod 99) in
         case fmlookup games id of
           None \<Rightarrow> (Inr id, games)
         | Some None \<Rightarrow> (Inl PanicNilGame, games)
         | Some (Some game) \<Rightarrow>
             if Created game + hour * 12 > now i then (Inr id, fmupd id None games)
             else findID_loop (Suc i) rnd now games)
      else (Inl ErrNoGamesAvailable, games))"
  by pat_completeness auto
termination
  by (relation "measure (\<lambda>(i, rnd, now, games). maxAttempts - i)") auto

declare findID_loop.simps [simp del]

definition findID :: "rand \<Rightarrow> (nat \<Rightarrow> int) \<Rightarrow> registry \<Rightarrow> (error + int) \<times> registry" where
  "findID rnd now games = findID_loop 0 rnd now games"

subsection \<open>isCleanEnough and getCardsCsv\<close>

text \<open>
  \<^verbatim>\<open>getCardsCsv\<close> from the response of the object store on: \<open>resp\<close> is the error of
  \<^verbatim>\<open>GetObject\<close> or the rows of the body as the csv reader parses them, each a record or
  a parse error, up to \<^verbatim>\<open>io.EOF\<close> at the end of the list. The reader is the one of
  \<^verbatim>\<open>csv.NewReader\<close>, whose \<^verbatim>\<open>FieldsPerRecord\<close> is 0 at first: \<^verbatim>\<open>Read\<close> sets it to the
  number of fields of the first record and returns \<^verbatim>\<open>csv.ErrFieldCount\<close> for every later
  record with another number of fields. \<open>fieldsPerRecord\<close> is that field of the reader.
  \<^verbatim>\<open>strings.TrimSpace\<close> is a parameter.
\<close>

definition ranks :: "string \<Rightarrow> int option" where
  "ranks = map_of [(''G'', 0), (''PG'', 1), (''PG-13'', 2), (''R'', 3), (''X'', 4)]"

definition isCleanEnough :: "string \<Rightarrow> string \<Rightarrow> error + bool" where
  "isCleanEnough cardCleanliness cleanliness =
     (case ranks cardCleanliness of
        None \<Rightarrow> Inl ErrMalformedCSV
      | Some cardRank \<Rightarrow>
          (case ranks cleanliness of
             None \<Rightarrow> Inl ErrMalformedCSV
           | Some rank \<Rightarrow> if cardRank \<le> rank then Inr True else Inr False))"

datatype read_result = Record "string list" | ReadError error

fun getCardsCsv_loop :: "(string \<Rightarrow> string) \<Rightarrow> nat \<Rightarrow> read_result list \<Rightarrow> string \<Rightarrow> Card list
    \<Rightarrow> error + Card list" where
  "getCardsCsv_loop trimSpace fieldsPerRecord [] cleanliness cards = Inr cards"
| "getCardsCsv_loop trimSpace fieldsPerRecord (ReadError e # rest) cleanliness cards = Inl e"
| "getCardsCsv_loop trimSpace fieldsPerRecord (Record line # rest) cleanliness cards =
     (if fieldsPerRecord > 0 \<and> length line \<noteq> fieldsPerRecord then Inl ErrFieldCount
      else
        let fields = (if fieldsPerRecord > 0 then fieldsPerRecord else length line) in
        if length line \<noteq> 2 then Inl ErrMalformedCSV
        else
          (case isCleanEnough (line ! 1) cleanliness of
             Inl e \<Rightarrow> Inl e
           | Inr cleanEnough \<Rightarrow>
               if \<not> cleanEnough then getCardsCsv_loop trimSpace fields rest cleanliness cards
               else getCardsCsv_loop trimSpace fields rest cleanliness
                      (cards @ [trimSpace (line ! 0)])))"

definition getCardsCsv :: "(string \<Rightarrow> string) \<Rightarrow> error + read_result list \<Rightarrow> string
    \<Rightarrow> error + Card list" where
  "getCardsCsv trimSpace resp cleanliness =
     (case resp of
        Inl e \<Rightarrow> Inl e
      | Inr records \<Rightarrow> getCardsCsv_loop trimSpace 0 records cleanliness [])"

section \<open>Notions used to state the properties\<close>

text \<open>
  \<open>deficit p\<close> is the number of cards player \<open>p\<close> lacks (none when the hand holds
  \<open>handSize\<close> cards or more), \<open>need\<close> the sum over a list of players, \<open>hands\<close> the
  cards in the players' hands and \<open>all_cards\<close> those together with the pool.
\<close>

definition deficit :: "Player \<Rightarrow> nat" where
  "deficit p = nat (handSize - int (length (Punchlines p)))"

definition need :: "Player list \<Rightarrow> nat" where
  "need ps = sum_list (map deficit ps)"

definition hands :: "Player list \<Rightarrow> Card list" where
  "hands ps = concat (map Punchlines ps)"

definition all_cards :: "Game \<Rightarrow> Card list" where
  "all_cards g = hands (Players g) @ GamePunchlines g"

text \<open>The setup cards of a list of rounds, round by round, position by position.\<close>

definition setupCards :: "Round list \<Rightarrow> Card list" where
  "setupCards rs = concat (map (\<lambda>r. [fst (Setup r), snd (Setup r)]) rs)"

text \<open>Two random streams, and the games of \<^verbatim>\<open>TestDealPunchlines\<close>.\<close>

definition zeros :: rand where
  "zeros k = 0"

definition counting :: rand where
  "counting k = k"

definition dealTest1 :: Game where
  "dealTest1 = \<lparr>ID = 0,
     Players = [\<lparr>Name = ''al'', Punchlines = []\<rparr>, \<lparr>Name = ''bob'', Punchlines = []\<rparr>],
     GamePunchlines = [''1'', ''2'', ''3'', ''4''] @ [''5'', ''6'', ''7'', ''8'']
       @ [''9'', ''10'', ''11'', ''12''],
     Rounds = [], RoundsRemaining = 0, CurrentAction = [], Created = 0\<rparr>"

definition dealTest2 :: Game where
  "dealTest2 = \<lparr>ID = 0,
     Players = [\<lparr>Name = ''al'', Punchlines = []\<rparr>, \<lparr>Name = ''bob'', Punchlines = []\<rparr>],
     GamePunchlines = [''1''],
     Rounds = [], RoundsRemaining = 0, CurrentAction = [], Created = 0\<rparr>"

definition overfull :: Game where
  "overfull = \<lparr>ID = 0,
     Players = [\<lparr>Name = ''al'', Punchlines = [''c1'', ''c2'', ''c3'', ''c4'', ''c5'', ''c6'', ''c7'']\<rparr>],
     GamePunchlines = [],
     Rounds = [], RoundsRemaining = 0, CurrentAction = [], Created = 0\<rparr>"

text \<open>
  The game and the setup cards of \<^verbatim>\<open>TestCreateRounds\<close>, the rows of
  \<^verbatim>\<open>TestGetCardsCsv\<close>, a clock that stands still, and a registry whose 99 identifiers
  all hold the same game.
\<close>

definition roundsTest :: Game where
  "roundsTest = \<lparr>ID = 0, Players = [], GamePunchlines = [], Rounds = [], RoundsRemaining = 3,
     CurrentAction = [], Created = 0\<rparr>"

definition testSetups :: "Card list" where
  "testSetups = [''test1'', ''test2'', ''test3'', ''test4'', ''test5'', ''test6'']"

definition csvTest :: "string list list" where
  "csvTest = [[''test'', ''R''], [''test2'', ''R''], [''test3'', ''G'']]"

definition clockAt :: "int \<Rightarrow> nat \<Rightarrow> int" where
  "clockAt t i = t"

definition saturated :: "Game \<Rightarrow> registry" where
  "saturated g = fmap_of_list (map (\<lambda>i. (int i, Some g)) [0..<99])"

text \<open>
  A row is well formed when it has two columns and a rating of the scale; it is eligible
  for the rank \<open>t\<close> when its rating has a rank of at most \<open>t\<close>.
\<close>

definition eligible :: "int \<Rightarrow> string list \<Rightarrow> bool" where
  "eligible t line = (case ranks (line ! 1) of None \<Rightarrow> False | Some c \<Rightarrow> c \<le> t)"

definition wellFormed :: "string list \<Rightarrow> bool" where
  "wellFormed line = (length line = 2 \<and> ranks (line ! 1) \<noteq> None)"

text \<open>
  \<open>inRange\<close> is the condition under which \<^verbatim>\<open>g.Rounds[g.RoundsRemaining-1]\<close> is an
  element of \<^verbatim>\<open>g.Rounds\<close>, \<open>currentRound\<close> that element. \<open>recordPlay\<close> and
  \<open>recordVote\<close> name the game after the first statements of \<^verbatim>\<open>Play\<close> (up to the
  assignment of \<^verbatim>\<open>CurrentAction\<close>) and of \<^verbatim>\<open>Vote\<close> (up to the write to
  \<^verbatim>\<open>g.Rounds\<close>).
\<close>

definition inRange :: "Game \<Rightarrow> bool" where
  "inRange g = (1 \<le> RoundsRemaining g \<and> RoundsRemaining g \<le> int (length (Rounds g)))"

definition currentRound :: "Game \<Rightarrow> Round" where
  "currentRound g = Rounds g ! nat (RoundsRemaining g - 1)"

definition recordPlay :: "string \<Rightarrow> Card \<Rightarrow> Game \<Rightarrow> Game" where
  "recordPlay playerName crd g =
     (let round = (currentRound g)\<lparr>Plays := fmupd playerName crd (Plays (currentRound g))\<rparr> in
      g\<lparr>Rounds := (Rounds g)[nat (RoundsRemaining g - 1) := round],
        CurrentAction := (if fcard (fmdom (Plays round)) = length (Players g) then VOTE
                          else CurrentAction g)\<rparr>)"

definition recordVote :: "string \<Rightarrow> Card \<Rightarrow> Game \<Rightarrow> Game" where
  "recordVote playerName crd g =
     g\<lparr>Rounds := (Rounds g)[nat (RoundsRemaining g - 1) :=
          (currentRound g)\<lparr>Votes := fmupd playerName crd (Votes (currentRound g))\<rparr>]\<rparr>"

text \<open>
  A sequence of \<^verbatim>\<open>Play\<close> calls on one game, each with its random stream, its player name
  and its card.
\<close>

fun plays :: "(rand \<times> string \<times> Card) list \<Rightarrow> Game \<Rightarrow> Game" where
  "plays [] g = g"
| "plays ((rnd, playerName, crd) # calls) g = plays calls (snd (Play rnd playerName crd g))"

text \<open>
  A session of two players with full hands, one round and two cards in the pool, and a
  third player without cards.
\<close>

definition al :: Player where
  "al = \<lparr>Name = ''al'', Punchlines = [''a1'', ''a2'', ''a3'', ''a4'', ''a5'', ''a6'']\<rparr>"

definition bob :: Player where
  "bob = \<lparr>Name = ''bob'', Punchlines = [''b1'', ''b2'', ''b3'', ''b4'', ''b5'', ''b6'']\<rparr>"

definition cy :: Player where
  "cy = \<lparr>Name = ''cy'', Punchlines = []\<rparr>"

definition session :: Game where
  "session = \<lparr>ID = 7, Players = [al, bob], GamePunchlines = [''p1'', ''p2''],
     Rounds = [zeroRound], RoundsRemaining = 1, CurrentAction = PLAY, Created = 0\<rparr>"

text \<open>
  A game whose pool holds a card twice, as a catalog with a repeated line gives it, and
  the game after the first refill.
\<close>

definition duplicated :: Game where
  "duplicated = \<lparr>ID = 7, Players = [\<lparr>Name = ''al'', Punchlines = []\<rparr>],
     GamePunchlines = [''x'', ''x'', ''q2'', ''q3'', ''q4'', ''q5''],
     Rounds = [zeroRound], RoundsRemaining = 1, CurrentAction = PLAY, Created = 0\<rparr>"

definition dealtTwice :: Game where
  "dealtTwice = snd (dealPunchlines zeros duplicated)"

text \<open>
  The session played through: both players play, then both vote.
\<close>

definition onePlayed :: Game where
  "onePlayed = snd (Play zeros ''al'' ''a1'' session)"

definition bothPlayed :: Game where
  "bothPlayed = snd (Play zeros ''bob'' ''b1'' onePlayed)"

definition oneVoted :: Game where
  "oneVoted = snd (Vote zeros ''al'' ''b1'' bothPlayed)"

definition bothVoted :: Game where
  "bothVoted = snd (Vote zeros ''bob'' ''a1'' oneVoted)"

section \<open>Hand refill\<close>

lemma length_swapRemove: "length (swapRemove i xs) = length xs - 1"
  by (simp add: swapRemove_def)

lemma mset_butlast_last: "xs \<noteq> [] \<Longrightarrow> mset xs = add_mset (last xs) (mset (butlast xs))"
proof -
  assume "xs \<noteq> []"
  then have "mset xs = mset (butlast xs @ [last xs])" by simp
  then show ?thesis by (simp del: append_butlast_last_id)
qed

lemma mset_swapRemove:
  assumes "i < length xs"
  shows "add_mset (xs ! i) (mset (swapRemove i xs)) = mset xs"
proof (cases "i = length xs - 1")
  case True
  with assms have ne: "xs \<noteq> []" by auto
  have "xs ! i = last xs" using True ne by (simp add: last_conv_nth)
  moreover have "swapRemove i xs = butlast xs"
    using True ne by (simp add: swapRemove_def butlast_conv_take last_conv_nth[symmetric])
  ultimately show ?thesis using mset_butlast_last[OF ne] by simp
next
  case False
  with assms have i: "i < length xs - 1" by simp
  then have ne: "xs \<noteq> []" by auto
  have sr: "swapRemove i xs = (butlast xs)[i := last xs]"
    using ne by (simp add: swapRemove_def butlast_conv_take last_conv_nth take_update_swap)
  have bl: "butlast xs ! i = xs ! i" using i by (simp add: nth_butlast)
  have "mset ((butlast xs)[i := last xs])
      = add_mset (last xs) (mset (butlast xs) - {#butlast xs ! i#})"
    using i by (simp add: mset_update)
  moreover have "xs ! i \<in># mset (butlast xs)"
    using i bl by (metis length_butlast nth_mem set_mset_mset)
  ultimately show ?thesis using sr bl mset_butlast_last[OF ne] by simp
qed

text \<open>
  The inner loop never reaches the panic of \<^verbatim>\<open>rand.Intn\<close> when the pool holds the cards
  it is asked for, and it moves exactly that many cards from the pool to the hand.
\<close>

lemma dealCards_ok:
  "n \<le> length pool \<Longrightarrow>
   \<exists>rnd' pool' hand'. dealCards n rnd pool hand = (None, rnd', pool', hand')
     \<and> length pool' = length pool - n
     \<and> length hand' = length hand + n
     \<and> mset hand' + mset pool' = mset hand + mset pool"
proof (induction n arbitrary: rnd pool hand)
  case 0
  then show ?case by simp
next
  case (Suc n)
  then have pos: "length pool \<noteq> 0" by auto
  define index where "index = rnd 0 mod length pool"
  have idx: "index < length pool" using pos by (simp add: index_def)
  have I: "Intn rnd (length pool) = Some index" using pos by (simp add: Intn_def index_def)
  have len: "n \<le> length (swapRemove index pool)"
    using Suc.prems by (simp add: length_swapRemove)
  from Suc.IH[OF len, of "advance rnd" "hand @ [pool ! index]"]
  obtain rnd' pool' hand' where
    r: "dealCards n (advance rnd) (swapRemove index pool) (hand @ [pool ! index]) = (None, rnd', pool', hand')"
    and l1: "length pool' = length (swapRemove index pool) - n"
    and l2: "length hand' = length (hand @ [pool ! index]) + n"
    and m: "mset hand' + mset pool' = mset (hand @ [pool ! index]) + mset (swapRemove index pool)"
    by blast
  have "mset (hand @ [pool ! index]) + mset (swapRemove index pool) = mset hand + mset pool"
    by (simp flip: mset_swapRemove[OF idx])
  with r l1 l2 m I show ?case by (simp add: length_swapRemove)
qed

lemma deficit_max: "length (Punchlines p) + deficit p = max 6 (length (Punchlines p))"
  by (simp add: deficit_def handSize_def)

text \<open>
  Whatever the outcome, the loop over the players returns no panic, keeps the players'
  names and only moves cards between the pool and the hands.
\<close>

lemma dealPlayers_frame:
  "\<exists>e pool' ps'. dealPlayers rnd pool ps = (e, pool', ps')
     \<and> (e = None \<or> e = Some ErrTooFewPunchlines)
     \<and> map Name ps' = map Name ps
     \<and> mset (hands ps') + mset pool' = mset (hands ps) + mset pool"
proof (induction ps arbitrary: rnd pool)
  case Nil
  then show ?case by (simp add: hands_def)
next
  case (Cons p ps)
  show ?case
  proof (cases "handSize - int (length (Punchlines p)) > int (length pool)")
    case True
    then show ?thesis by simp
  next
    case False
    then have "nat (handSize - int (length (Punchlines p))) \<le> length pool" by simp
    from dealCards_ok[OF this, of rnd "Punchlines p"]
    obtain rnd' pool' hand' where
      d: "dealCards (nat (handSize - int (length (Punchlines p)))) rnd pool (Punchlines p)
            = (None, rnd', pool', hand')"
      and m: "mset hand' + mset pool' = mset (Punchlines p) + mset pool"
      by blast
    from Cons.IH[of rnd' pool']
    obtain e pool'' ps' where
      r: "dealPlayers rnd' pool' ps = (e, pool'', ps')"
      and e: "e = None \<or> e = Some ErrTooFewPunchlines"
      and n: "map Name ps' = map Name ps"
      and m2: "mset (hands ps') + mset pool'' = mset (hands ps) + mset pool'"
      by blast
    have "mset (hands (p\<lparr>Punchlines := hand'\<rparr> # ps')) + mset pool''
        = mset hand' + (mset (hands ps) + mset pool')"
      using m2 by (simp add: hands_def add.assoc)
    also have "\<dots> = mset (hands (p # ps)) + mset pool"
      using m by (simp add: hands_def ac_simps)
    finally show ?thesis using False d r e n by simp
  qed
qed

lemma dealPlayers_enough:
  "need ps \<le> length pool \<Longrightarrow>
   \<exists>pool' ps'. dealPlayers rnd pool ps = (None, pool', ps')
     \<and> length pool' = length pool - need ps
     \<and> map (\<lambda>p. length (Punchlines p)) ps' = map (\<lambda>p. max 6 (length (Punchlines p))) ps"
proof (induction ps arbitrary: rnd pool)
  case Nil
  then show ?case by (simp add: need_def)
next
  case (Cons p ps)
  from Cons.prems have dp: "deficit p \<le> length pool" and rest: "need ps \<le> length pool - deficit p"
    by (simp_all add: need_def)
  have guard: "\<not> handSize - int (length (Punchlines p)) > int (length pool)"
    using dp by (simp add: deficit_def)
  from dealCards_ok[OF dp, of rnd "Punchlines p"]
  obtain rnd' pool' hand' where
    d: "dealCards (deficit p) rnd pool (Punchlines p) = (None, rnd', pool', hand')"
    and l1: "length pool' = length pool - deficit p"
    and l2: "length hand' = length (Punchlines p) + deficit p"
    by blast
  from rest l1 have "need ps \<le> length pool'" by simp
  from Cons.IH[OF this, of rnd']
  obtain pool'' ps' where
    r: "dealPlayers rnd' pool' ps = (None, pool'', ps')"
    and l3: "length pool'' = length pool' - need ps"
    and l4: "map (\<lambda>p. length (Punchlines p)) ps' = map (\<lambda>p. max 6 (length (Punchlines p))) ps"
    by blast
  have "length pool'' = length pool - need (p # ps)"
    using l1 l3 by (simp add: need_def)
  moreover have "length hand' = max 6 (length (Punchlines p))"
    using l2 deficit_max by simp
  ultimately show ?case
    using guard d r l4 by (simp add: deficit_def[symmetric])
qed

lemma dealPlayers_short:
  "length pool < need ps \<Longrightarrow>
   \<exists>pool' ps' k. dealPlayers rnd pool ps = (Some ErrTooFewPunchlines, pool', ps')
     \<and> k < length ps \<and> length ps' = length ps
     \<and> need (take k ps) \<le> length pool
     \<and> length pool' = length pool - need (take k ps)
     \<and> int (length pool') < handSize - int (length (Punchlines (ps ! k)))
     \<and> map (\<lambda>p. length (Punchlines p)) (take k ps')
         = map (\<lambda>p. max 6 (length (Punchlines p))) (take k ps)
     \<and> drop k ps' = drop k ps"
proof (induction ps arbitrary: rnd pool)
  case Nil
  then show ?case by (simp add: need_def)
next
  case (Cons p ps)
  show ?case
  proof (cases "handSize - int (length (Punchlines p)) > int (length pool)")
    case True
    then have "dealPlayers rnd pool (p # ps) = (Some ErrTooFewPunchlines, pool, p # ps)"
      by simp
    with True show ?thesis
      by (intro exI[of _ pool] exI[of _ "p # ps"] exI[of _ 0]) (simp add: need_def)
  next
    case False
    then have dp: "deficit p \<le> length pool" by (simp add: deficit_def)
    from dealCards_ok[OF dp, of rnd "Punchlines p"]
    obtain rnd' pool' hand' where
      d: "dealCards (deficit p) rnd pool (Punchlines p) = (None, rnd', pool', hand')"
      and l1: "length pool' = length pool - deficit p"
      and l2: "length hand' = length (Punchlines p) + deficit p"
      by blast
    from Cons.prems dp l1 have "length pool' < need ps" by (simp add: need_def)
    from Cons.IH[OF this, of rnd']
    obtain pool'' ps' k where
      r: "dealPlayers rnd' pool' ps = (Some ErrTooFewPunchlines, pool'', ps')"
      and k: "k < length ps" "length ps' = length ps"
      and n: "need (take k ps) \<le> length pool'"
      and l3: "length pool'' = length pool' - need (take k ps)"
      and f: "int (length pool'') < handSize - int (length (Punchlines (ps ! k)))"
      and t: "map (\<lambda>p. length (Punchlines p)) (take k ps')
               = map (\<lambda>p. max 6 (length (Punchlines p))) (take k ps)"
      and dr: "drop k ps' = drop k ps"
      by blast
    have h: "length hand' = max 6 (length (Punchlines p))"
      using l2 deficit_max by simp
    have res: "dealPlayers rnd pool (p # ps)
        = (Some ErrTooFewPunchlines, pool'', p\<lparr>Punchlines := hand'\<rparr> # ps')"
      using False d r by (simp add: deficit_def[symmetric])
    show ?thesis
      using res k n l1 l3 f t dr h dp
      by (intro exI[of _ pool''] exI[of _ "p\<lparr>Punchlines := hand'\<rparr> # ps'"] exI[of _ "Suc k"])
         (simp add: need_def)
  qed
qed

lemma dealPunchlines_fst:
  "fst (dealPunchlines rnd g)
     = (if need (Players g) \<le> length (GamePunchlines g) then None
        else Some ErrTooFewPunchlines)"
proof (cases "need (Players g) \<le> length (GamePunchlines g)")
  case True
  from dealPlayers_enough[OF True, of rnd] show ?thesis
    using True by (auto simp: dealPunchlines_def)
next
  case False
  then have "length (GamePunchlines g) < need (Players g)" by simp
  from dealPlayers_short[OF this, of rnd] show ?thesis
    using False by (auto simp: dealPunchlines_def)
qed

text \<open>
  Claim C6, as the code has it. \<^verbatim>\<open>dealPunchlines\<close> succeeds exactly when the pool covers
  the sum of the players' deficits. On success every hand ends with \<open>max 6 n\<close> cards,
  \<open>n\<close> its size before: exactly six for a hand of at most six cards, while a hand of more
  than six cards is left as it is. Otherwise the call returns \<^verbatim>\<open>ErrTooFewPunchlines\<close> at
  the first player \<open>k\<close> whose deficit exceeds what is left of the pool: the players before
  \<open>k\<close> keep the cards they were dealt, player \<open>k\<close> and the later ones are untouched, and
  the pool keeps the cards that the earlier players did not take.
\<close>

theorem dealPunchlines_refill:
  "(need (Players g) \<le> length (GamePunchlines g) \<longrightarrow>
      (\<exists>g'. dealPunchlines rnd g = (None, g')
         \<and> map (\<lambda>p. length (Punchlines p)) (Players g')
             = map (\<lambda>p. max 6 (length (Punchlines p))) (Players g)
         \<and> length (GamePunchlines g') = length (GamePunchlines g) - need (Players g)))
   \<and> (length (GamePunchlines g) < need (Players g) \<longrightarrow>
      (\<exists>g' k. dealPunchlines rnd g = (Some ErrTooFewPunchlines, g')
         \<and> k < length (Players g) \<and> length (Players g') = length (Players g)
         \<and> need (take k (Players g)) \<le> length (GamePunchlines g)
         \<and> length (GamePunchlines g') = length (GamePunchlines g) - need (take k (Players g))
         \<and> int (length (GamePunchlines g')) < handSize - int (length (Punchlines (Players g ! k)))
         \<and> map (\<lambda>p. length (Punchlines p)) (take k (Players g'))
             = map (\<lambda>p. max 6 (length (Punchlines p))) (take k (Players g))
         \<and> drop k (Players g') = drop k (Players g)))"
proof (intro conjI impI)
  assume "need (Players g) \<le> length (GamePunchlines g)"
  from dealPlayers_enough[OF this, of rnd]
  show "\<exists>g'. dealPunchlines rnd g = (None, g')
         \<and> map (\<lambda>p. length (Punchlines p)) (Players g')
             = map (\<lambda>p. max 6 (length (Punchlines p))) (Players g)
         \<and> length (GamePunchlines g') = length (GamePunchlines g) - need (Players g)"
    by (auto simp: dealPunchlines_def)
next
  assume "length (GamePunchlines g) < need (Players g)"
  from dealPlayers_short[OF this, of rnd]
  obtain pool' ps' k where
    r: "dealPlayers rnd (GamePunchlines g) (Players g) = (Some ErrTooFewPunchlines, pool', ps')"
    and rest: "k < length (Players g)" "length ps' = length (Players g)"
      "need (take k (Players g)) \<le> length (GamePunchlines g)"
      "length pool' = length (GamePunchlines g) - need (take k (Players g))"
      "int (length pool') < handSize - int (length (Punchlines (Players g ! k)))"
      "map (\<lambda>p. length (Punchlines p)) (take k ps')
         = map (\<lambda>p. max 6 (length (Punchlines p))) (take k (Players g))"
      "drop k ps' = drop k (Players g)"
    by blast
  show "\<exists>g' k. dealPunchlines rnd g = (Some ErrTooFewPunchlines, g')
         \<and> k < length (Players g) \<and> length (Players g') = length (Players g)
         \<and> need (take k (Players g)) \<le> length (GamePunchlines g)
         \<and> length (GamePunchlines g') = length (GamePunchlines g) - need (take k (Players g))
         \<and> int (length (GamePunchlines g')) < handSize - int (length (Punchlines (Players g ! k)))
         \<and> map (\<lambda>p. length (Punchlines p)) (take k (Players g'))
             = map (\<lambda>p. max 6 (length (Punchlines p))) (take k (Players g))
         \<and> drop k (Players g') = drop k (Players g)"
    using r rest
    by (intro exI[of _ "g\<lparr>Players := ps', GamePunchlines := pool'\<rparr>"] exI[of _ k])
       (simp add: dealPunchlines_def)
qed

text \<open>
  The two games of \<^verbatim>\<open>TestDealPunchlines\<close>: twelve cards for two empty hands give six
  cards each, and one card for two empty hands gives the error with the card still in
  the pool.
\<close>

theorem dealPunchlines_refill_witness:
  "fst (dealPunchlines counting dealTest1) = None
   \<and> map (\<lambda>p. length (Punchlines p)) (Players (snd (dealPunchlines counting dealTest1))) = [6, 6]
   \<and> length (GamePunchlines (snd (dealPunchlines counting dealTest1))) = 0
   \<and> fst (dealPunchlines zeros dealTest2) = Some ErrTooFewPunchlines
   \<and> length (GamePunchlines (snd (dealPunchlines zeros dealTest2))) = 1"
proof -
  have n1: "need (Players dealTest1) = 12" and l1: "length (GamePunchlines dealTest1) = 12"
    by (simp_all add: dealTest1_def need_def deficit_def handSize_def)
  have n2: "need (Players dealTest2) = 12" and l2: "length (GamePunchlines dealTest2) = 1"
    and t0: "\<And>k. k < 2 \<Longrightarrow> need (take k (Players dealTest2)) \<le> 1 \<Longrightarrow> k = 0"
    by (auto simp: dealTest2_def need_def deficit_def handSize_def less_Suc_eq numeral_2_eq_2)
  have p2: "length (Players dealTest2) = 2" by (simp add: dealTest2_def)
  from dealPunchlines_refill[of dealTest1 counting] n1 l1
  have a: "fst (dealPunchlines counting dealTest1) = None
     \<and> map (\<lambda>p. length (Punchlines p)) (Players (snd (dealPunchlines counting dealTest1)))
        = map (\<lambda>p. max 6 (length (Punchlines p))) (Players dealTest1)
     \<and> length (GamePunchlines (snd (dealPunchlines counting dealTest1))) = 0"
    by auto
  from dealPunchlines_refill[of dealTest2 zeros] n2 l2 p2
  obtain g' k where
    r: "dealPunchlines zeros dealTest2 = (Some ErrTooFewPunchlines, g')"
    and k: "k < 2" "need (take k (Players dealTest2)) \<le> 1"
    and l: "length (GamePunchlines g') = 1 - need (take k (Players dealTest2))"
    by auto
  from t0[OF k] l have "length (GamePunchlines g') = 1" by (simp add: need_def)
  with r a show ?thesis by (simp add: dealTest1_def)
qed

text \<open>
  The claim as written fails on a hand of more than six cards: the pool covers every
  deficit, the call succeeds, and the hand still holds seven cards.
\<close>

theorem dealPunchlines_exactly_six_counterexample:
  "need (Players overfull) \<le> length (GamePunchlines overfull)
   \<and> dealPunchlines zeros overfull = (None, overfull)
   \<and> length (Punchlines (Players overfull ! 0)) = 7"
  by (simp add: overfull_def need_def deficit_def handSize_def dealPunchlines_def)

section \<open>The removal loop of Play\<close>

text \<open>
  When the card does not occur at the positions the loop has still to visit, the loop
  changes nothing.
\<close>

lemma rmHand_no_match:
  "(\<forall>k. j \<le> k \<and> k < n \<longrightarrow> arr ! k \<noteq> crd) \<Longrightarrow> rmHand crd n j arr len = (None, take len arr)"
proof (induction "n - j" arbitrary: j)
  case 0
  then show ?case by (simp add: rmHand.simps)
next
  case (Suc d)
  then have "j < n" and "arr ! j \<noteq> crd" by auto
  moreover have "rmHand crd n (Suc j) arr len = (None, take len arr)"
    using Suc by auto
  ultimately show ?case by (subst rmHand.simps) simp
qed

text \<open>
  When the card occurs once, at position \<open>k\<close>, the loop puts the last card of the hand
  at position \<open>k\<close> and drops the last position.
\<close>

lemma rmHand_one_match:
  assumes "k < length arr" and "arr ! k = crd"
    and "\<forall>m. m < length arr \<and> m \<noteq> k \<longrightarrow> arr ! m \<noteq> crd"
  shows "j \<le> k \<Longrightarrow> rmHand crd (length arr) j arr (length arr) = (None, swapRemove k arr)"
proof (induction "k - j" arbitrary: j)
  case 0
  then have jk: "j = k" by simp
  have "\<forall>m. Suc k \<le> m \<and> m < length arr
          \<longrightarrow> arr[k := arr ! (length arr - 1)] ! m \<noteq> crd"
    using assms(3) by auto
  then have "rmHand crd (length arr) (Suc k) (arr[k := arr ! (length arr - 1)]) (length arr - 1)
      = (None, take (length arr - 1) (arr[k := arr ! (length arr - 1)]))"
    by (rule rmHand_no_match)
  then show ?case
    using assms(1,2) jk by (subst rmHand.simps) (simp add: swapRemove_def)
next
  case (Suc d)
  then have "j < k" by simp
  then have "j < length arr" "arr ! j \<noteq> crd" using assms by auto
  moreover have "rmHand crd (length arr) (Suc j) arr (length arr) = (None, swapRemove k arr)"
    using Suc by auto
  ultimately show ?case by (subst rmHand.simps) simp
qed

lemma rmHand_absent:
  "crd \<notin> set h \<Longrightarrow> rmHand crd (length h) 0 h (length h) = (None, h)"
proof -
  assume "crd \<notin> set h"
  then have "\<forall>k. 0 \<le> k \<and> k < length h \<longrightarrow> h ! k \<noteq> crd" by auto
  from rmHand_no_match[OF this, of "length h"] show ?thesis by simp
qed

lemma rmHand_distinct:
  assumes "distinct h" and "crd \<in> set h"
  shows "\<exists>k<length h. h ! k = crd \<and> rmHand crd (length h) 0 h (length h) = (None, swapRemove k h)"
proof -
  from assms(2) obtain k where k: "k < length h" "h ! k = crd"
    by (auto simp: in_set_conv_nth)
  have "\<forall>m. m < length h \<and> m \<noteq> k \<longrightarrow> h ! m \<noteq> crd"
    using assms(1) k by (auto simp: nth_eq_iff_index_eq)
  from rmHand_one_match[OF k this, of 0] k show ?thesis by auto
qed

lemma mset_swapRemove_diff:
  "k < length h \<Longrightarrow> mset (swapRemove k h) = mset h - {#h ! k#}"
  using mset_swapRemove[of k h] by (metis add_mset_remove_trivial)

lemma filter_neq_distinct:
  "distinct h \<Longrightarrow> filter_mset (\<lambda>x. x \<noteq> crd) (mset h) = mset h - {#crd#}"
  by (induction h) auto

lemma rmHand_distinct_mset:
  assumes "distinct h"
  shows "\<exists>h'. rmHand crd (length h) 0 h (length h) = (None, h')
     \<and> mset h' = mset h - {#crd#} \<and> (crd \<notin> set h \<longrightarrow> h' = h)"
proof (cases "crd \<in> set h")
  case True
  from rmHand_distinct[OF assms True] show ?thesis
    using True by (auto simp: mset_swapRemove_diff)
next
  case False
  then show ?thesis by (simp add: rmHand_absent)
qed

lemma rmHand_error:
  "fst (rmHand crd n j arr len) = None \<or> fst (rmHand crd n j arr len) = Some PanicIndexPunchlines"
proof (induction crd n j arr len rule: rmHand.induct)
  case (1 crd n j arr len)
  then show ?case by (subst (1 2) rmHand.simps) auto
qed

lemma rmUsedPunchline_frame:
  "\<exists>e ps'. rmUsedPunchline crd ps = (e, ps')
     \<and> (e = None \<or> e = Some PanicIndexPunchlines)
     \<and> list_all2 (\<lambda>p p'. Name p' = Name p \<and> (crd \<notin> set (Punchlines p) \<longrightarrow> p' = p)) ps ps'"
proof (induction ps)
  case Nil
  then show ?case by simp
next
  case (Cons p ps)
  obtain e1 h1 where r1: "rmHand crd (length (Punchlines p)) 0 (Punchlines p) (length (Punchlines p)) = (e1, h1)"
    by (cases "rmHand crd (length (Punchlines p)) 0 (Punchlines p) (length (Punchlines p))")
  have same: "crd \<notin> set (Punchlines p) \<Longrightarrow> e1 = None \<and> h1 = Punchlines p"
    using r1 by (simp add: rmHand_absent)
  have refl: "list_all2 (\<lambda>p p'. Name p' = Name p \<and> (crd \<notin> set (Punchlines p) \<longrightarrow> p' = p)) ps ps"
    by (simp add: list_all2_same)
  have err1: "e1 = None \<or> e1 = Some PanicIndexPunchlines"
    using rmHand_error[of crd "length (Punchlines p)" 0 "Punchlines p" "length (Punchlines p)"] r1
    by simp
  from Cons obtain e ps' where
    r: "rmUsedPunchline crd ps = (e, ps')"
    and err: "e = None \<or> e = Some PanicIndexPunchlines"
    and a: "list_all2 (\<lambda>p p'. Name p' = Name p \<and> (crd \<notin> set (Punchlines p) \<longrightarrow> p' = p)) ps ps'"
    by blast
  show ?case
  proof (cases e1)
    case None
    then show ?thesis using r1 r a err same by auto
  next
    case (Some x)
    then show ?thesis using r1 refl err1 same by auto
  qed
qed

text \<open>A hand that holds the card once, whatever else it holds twice, is handled without a panic.\<close>

lemma rmHand_once:
  assumes "count_list h crd \<le> 1"
  shows "\<exists>h'. rmHand crd (length h) 0 h (length h) = (None, h')"
proof (cases "crd \<in> set h")
  case False
  then show ?thesis by (simp add: rmHand_absent)
next
  case True
  then obtain k where k: "k < length h" "h ! k = crd"
    by (auto simp: in_set_conv_nth)
  have split: "h = take k h @ h ! k # drop (Suc k) h"
    using k(1) by (rule id_take_nth_drop)
  have "count_list h crd = count_list (take k h) crd + (1 + count_list (drop (Suc k) h) crd)"
    using k(2) by (subst split) simp
  with assms have before: "crd \<notin> set (take k h)" and after: "crd \<notin> set (drop (Suc k) h)"
    by (simp_all add: count_list_0_iff)
  have "h ! m \<noteq> crd" if m: "m < length h" "m \<noteq> k" for m
  proof (cases "m < k")
    case True
    then have "h ! m = take k h ! m" by simp
    moreover have "take k h ! m \<in> set (take k h)"
      using True k(1) by (intro nth_mem) simp
    ultimately show ?thesis using before by auto
  next
    case False
    with m have gt: "Suc k \<le> m" by simp
    then have "h ! m = drop (Suc k) h ! (m - Suc k)" using m(1) by simp
    moreover have "drop (Suc k) h ! (m - Suc k) \<in> set (drop (Suc k) h)"
      using gt m(1) by (intro nth_mem) simp
    ultimately show ?thesis using after by auto
  qed
  then have "\<forall>m. m < length h \<and> m \<noteq> k \<longrightarrow> h ! m \<noteq> crd" by simp
  from rmHand_one_match[OF k this, of 0] show ?thesis by simp
qed

lemma rmUsedPunchline_once:
  "(\<forall>p \<in> set ps. count_list (Punchlines p) crd \<le> 1) \<Longrightarrow>
   \<exists>ps'. rmUsedPunchline crd ps = (None, ps')"
proof (induction ps)
  case Nil
  then show ?case by simp
next
  case (Cons p ps)
  then have "count_list (Punchlines p) crd \<le> 1" by simp
  from rmHand_once[OF this] obtain h' where
    "rmHand crd (length (Punchlines p)) 0 (Punchlines p) (length (Punchlines p)) = (None, h')"
    by blast
  moreover from Cons obtain ps' where "rmUsedPunchline crd ps = (None, ps')" by auto
  ultimately show ?case by simp
qed

lemma rmUsedPunchline_distinct:
  "(\<forall>p \<in> set ps. distinct (Punchlines p)) \<Longrightarrow>
   \<exists>ps'. rmUsedPunchline crd ps = (None, ps')
     \<and> list_all2 (\<lambda>p p'. Name p' = Name p
           \<and> mset (Punchlines p') = mset (Punchlines p) - {#crd#}) ps ps'"
proof (induction ps)
  case Nil
  then show ?case by simp
next
  case (Cons p ps)
  then have "distinct (Punchlines p)" by simp
  from rmHand_distinct_mset[OF this, of crd]
  obtain h' where
    r1: "rmHand crd (length (Punchlines p)) 0 (Punchlines p) (length (Punchlines p)) = (None, h')"
    and m: "mset h' = mset (Punchlines p) - {#crd#}"
    by blast
  from Cons obtain ps' where
    r: "rmUsedPunchline crd ps = (None, ps')"
    and a: "list_all2 (\<lambda>p p'. Name p' = Name p
           \<and> mset (Punchlines p') = mset (Punchlines p) - {#crd#}) ps ps'"
    by auto
  show ?case using r1 m r a by simp
qed

lemma hands_removed:
  "list_all2 (\<lambda>p p'. Name p' = Name p
       \<and> mset (Punchlines p') = mset (Punchlines p) - {#crd#}) ps ps' \<Longrightarrow>
   \<forall>p \<in> set ps. distinct (Punchlines p) \<Longrightarrow>
   mset (hands ps') = filter_mset (\<lambda>x. x \<noteq> crd) (mset (hands ps))"
proof (induction rule: list_all2_induct)
  case Nil
  then show ?case by (simp add: hands_def)
next
  case (Cons p ps p' ps')
  then have "mset (Punchlines p') = filter_mset (\<lambda>x. x \<noteq> crd) (mset (Punchlines p))"
    by (simp add: filter_neq_distinct)
  moreover have "mset (hands ps') = filter_mset (\<lambda>x. x \<noteq> crd) (mset (hands ps))"
    using Cons by simp
  ultimately show ?case by (simp add: hands_def)
qed

lemma distinct_hands_each: "distinct (hands ps) \<Longrightarrow> \<forall>p \<in> set ps. distinct (Punchlines p)"
  by (induction ps) (auto simp: hands_def)

text \<open>
  Claim C7, as the code has it. The removal loop of \<^verbatim>\<open>Play\<close> does not look at
  \<^verbatim>\<open>playerName\<close>: it scans the hand of every player. A hand that does not hold the card
  is left as it is, and so is every player's name. When no hand holds a card twice, the
  loop ends without a panic and every hand that holds the card loses it.
\<close>

theorem rmUsedPunchline_every_hand:
  "\<exists>e ps'. rmUsedPunchline crd ps = (e, ps') \<and> length ps' = length ps
     \<and> (\<forall>i<length ps. Name (ps' ! i) = Name (ps ! i)
           \<and> (crd \<notin> set (Punchlines (ps ! i)) \<longrightarrow> ps' ! i = ps ! i))
     \<and> ((\<forall>p \<in> set ps. distinct (Punchlines p)) \<longrightarrow>
           e = None
           \<and> (\<forall>i<length ps. mset (Punchlines (ps' ! i)) = mset (Punchlines (ps ! i)) - {#crd#}))"
proof -
  from rmUsedPunchline_frame[of crd ps] obtain e ps' where
    r: "rmUsedPunchline crd ps = (e, ps')"
    and a: "list_all2 (\<lambda>p p'. Name p' = Name p \<and> (crd \<notin> set (Punchlines p) \<longrightarrow> p' = p)) ps ps'"
    by blast
  have len: "length ps' = length ps" using a by (simp add: list_all2_lengthD)
  have frame: "\<forall>i<length ps. Name (ps' ! i) = Name (ps ! i)
           \<and> (crd \<notin> set (Punchlines (ps ! i)) \<longrightarrow> ps' ! i = ps ! i)"
    using a by (simp add: list_all2_conv_all_nth)
  have "e = None
      \<and> (\<forall>i<length ps. mset (Punchlines (ps' ! i)) = mset (Punchlines (ps ! i)) - {#crd#})"
    if d: "\<forall>p \<in> set ps. distinct (Punchlines p)"
  proof -
    from rmUsedPunchline_distinct[OF d, of crd] r
    have "e = None" and "list_all2 (\<lambda>p p'. Name p' = Name p
           \<and> mset (Punchlines p') = mset (Punchlines p) - {#crd#}) ps ps'"
      by auto
    then show ?thesis by (simp add: list_all2_conv_all_nth)
  qed
  with r len frame show ?thesis by blast
qed

theorem rmUsedPunchline_every_hand_witness:
  "fst (rmUsedPunchline ''a2'' [al, bob]) = None
   \<and> snd (rmUsedPunchline ''a2'' [al, bob]) ! 1 = bob
   \<and> mset (Punchlines (snd (rmUsedPunchline ''a2'' [al, bob]) ! 0))
       = mset [''a1'', ''a3'', ''a4'', ''a5'', ''a6'']"
proof -
  have d: "\<forall>p \<in> set [al, bob]. distinct (Punchlines p)"
    by (simp add: al_def bob_def)
  have nb: "''a2'' \<notin> set (Punchlines ([al, bob] ! 1))"
    by (simp add: bob_def)
  from rmUsedPunchline_every_hand[of "''a2''" "[al, bob]"] d
  obtain e ps' where
    r: "rmUsedPunchline ''a2'' [al, bob] = (e, ps')"
    and f: "\<forall>i<length [al, bob]. Name (ps' ! i) = Name ([al, bob] ! i)
           \<and> (''a2'' \<notin> set (Punchlines ([al, bob] ! i)) \<longrightarrow> ps' ! i = [al, bob] ! i)"
    and e: "e = None"
    and m: "\<forall>i<length [al, bob]. mset (Punchlines (ps' ! i))
              = mset (Punchlines ([al, bob] ! i)) - {#''a2''#}"
    by blast
  from f nb have "ps' ! 1 = bob" by simp
  moreover from m have "mset (Punchlines (ps' ! 0)) = mset (Punchlines al) - {#''a2''#}"
    by simp
  then have "mset (Punchlines (ps' ! 0)) = mset [''a1'', ''a3'', ''a4'', ''a5'', ''a6'']"
    by (simp add: al_def)
  ultimately show ?thesis using r e by simp
qed

text \<open>
  The claim as written fails when a player submits a card that another player holds:
  \<open>al\<close> plays \<open>b1\<close>, and the removal loop takes \<open>b1\<close> out of the hand of \<open>bob\<close>.
\<close>

theorem rmUsedPunchline_other_hand_counterexample:
  "rmUsedPunchline ''b1'' [al, bob]
     = (None, [al, bob\<lparr>Punchlines := [''b6'', ''b2'', ''b3'', ''b4'', ''b5'']\<rparr>])
   \<and> Players (snd (Play zeros ''al'' ''b1'' (session\<lparr>GamePunchlines := []\<rparr>)))
     = [al, bob\<lparr>Punchlines := [''b6'', ''b2'', ''b3'', ''b4'', ''b5'']\<rparr>]"
  by code_simp

section \<open>Play and Vote\<close>

lemma dealPunchlines_frame:
  "\<exists>e ps' pool'. dealPunchlines rnd g = (e, g\<lparr>Players := ps', GamePunchlines := pool'\<rparr>)
     \<and> (e = None \<or> e = Some ErrTooFewPunchlines)
     \<and> map Name ps' = map Name (Players g)
     \<and> mset (hands ps') + mset pool' = mset (hands (Players g)) + mset (GamePunchlines g)"
proof -
  from dealPlayers_frame[of rnd "GamePunchlines g" "Players g"]
  obtain e pool' ps' where
    "dealPlayers rnd (GamePunchlines g) (Players g) = (e, pool', ps')"
    "e = None \<or> e = Some ErrTooFewPunchlines"
    "map Name ps' = map Name (Players g)"
    "mset (hands ps') + mset pool' = mset (hands (Players g)) + mset (GamePunchlines g)"
    by blast
  then show ?thesis
    by (intro exI[of _ e] exI[of _ ps'] exI[of _ pool']) (simp add: dealPunchlines_def)
qed

lemma dealPunchlines_cards: "mset (all_cards (snd (dealPunchlines rnd g))) = mset (all_cards g)"
  using dealPunchlines_frame[of rnd g] by (auto simp: all_cards_def)

lemma dealPunchlines_other_fields:
  "Players (snd (dealPunchlines rnd (g\<lparr>Rounds := rs, RoundsRemaining := n\<rparr>)))
     = Players (snd (dealPunchlines rnd g))
   \<and> GamePunchlines (snd (dealPunchlines rnd (g\<lparr>Rounds := rs, RoundsRemaining := n\<rparr>)))
     = GamePunchlines (snd (dealPunchlines rnd g))"
  by (simp add: dealPunchlines_def split: prod.splits)

lemma discardError_frame: "e = None \<or> e = Some ErrTooFewPunchlines \<Longrightarrow> discardError e = None"
  by (auto simp: discardError_def isPanic_def)

lemma Play_out_of_range: "\<not> inRange g \<Longrightarrow> Play rnd playerName crd g = (Some PanicIndexRounds, g)"
  by (auto simp: Play_def inRange_def Let_def)

lemma Play_unfold:
  assumes "inRange g"
  shows "Play rnd playerName crd g =
      (case rmUsedPunchline crd (Players g) of
         (Some e, ps) \<Rightarrow> (Some e, (recordPlay playerName crd g)\<lparr>Players := ps\<rparr>)
       | (None, ps) \<Rightarrow>
           (case dealPunchlines rnd ((recordPlay playerName crd g)\<lparr>Players := ps\<rparr>) of
              (e, g3) \<Rightarrow> (discardError e, g3)))"
proof -
  have "\<not> (RoundsRemaining g - 1 < 0 \<or> int (length (Rounds g)) \<le> RoundsRemaining g - 1)"
    using assms by (auto simp: inRange_def)
  then show ?thesis
    by (auto simp: Play_def Let_def recordPlay_def currentRound_def split: prod.splits option.splits)
qed

text \<open>
  Within range, \<^verbatim>\<open>Play\<close> returns the game of \<open>recordPlay\<close> with new hands and a new pool;
  the only failure left is the panic of the removal loop.
\<close>

lemma Play_in_range:
  assumes "inRange g"
  shows "\<exists>e ps' pool'. Play rnd playerName crd g
            = (e, (recordPlay playerName crd g)\<lparr>Players := ps', GamePunchlines := pool'\<rparr>)
          \<and> (e = None \<or> e = Some PanicIndexPunchlines)
          \<and> map Name ps' = map Name (Players g)"
proof -
  let ?g2 = "recordPlay playerName crd g"
  obtain e1 ps1 where r1: "rmUsedPunchline crd (Players g) = (e1, ps1)"
    and err1: "e1 = None \<or> e1 = Some PanicIndexPunchlines"
    and n1: "list_all2 (\<lambda>p p'. Name p' = Name p \<and> (crd \<notin> set (Punchlines p) \<longrightarrow> p' = p)) (Players g) ps1"
    using rmUsedPunchline_frame[of crd "Players g"] by blast
  have names1: "map Name ps1 = map Name (Players g)"
    using n1 by (induction rule: list_all2_induct) auto
  note P = Play_unfold[OF assms, of rnd playerName crd]
  show ?thesis
  proof (cases e1)
    case (Some x)
    show ?thesis
      using P r1 Some names1 err1
      by (intro exI[of _ "Some x"] exI[of _ ps1] exI[of _ "GamePunchlines g"])
         (simp add: recordPlay_def Let_def)
  next
    case None
    obtain e ps' pool' where
      d: "dealPunchlines rnd (?g2\<lparr>Players := ps1\<rparr>)
            = (e, ?g2\<lparr>Players := ps1\<rparr>\<lparr>Players := ps', GamePunchlines := pool'\<rparr>)"
      and e: "e = None \<or> e = Some ErrTooFewPunchlines"
      and n: "map Name ps' = map Name (Players (?g2\<lparr>Players := ps1\<rparr>))"
      using dealPunchlines_frame[of rnd "?g2\<lparr>Players := ps1\<rparr>"] by blast
    show ?thesis
      using P r1 None d n names1 discardError_frame[OF e]
      by (intro exI[of _ None] exI[of _ ps'] exI[of _ pool']) simp
  qed
qed

text \<open>
  When no card occurs twice in the hands, \<^verbatim>\<open>Play\<close> within range does not panic, and the
  cards of hands and pool afterwards are those before without the played card.
\<close>

lemma Play_cards:
  assumes "inRange g" and "distinct (hands (Players g))"
  shows "\<exists>g'. Play rnd playerName crd g = (None, g')
          \<and> mset (all_cards g')
              = filter_mset (\<lambda>x. x \<noteq> crd) (mset (hands (Players g))) + mset (GamePunchlines g)"
proof -
  let ?g2 = "recordPlay playerName crd g"
  have each: "\<forall>p \<in> set (Players g). distinct (Punchlines p)"
    using assms(2) by (rule distinct_hands_each)
  from rmUsedPunchline_distinct[OF each, of crd] obtain ps1 where
    r1: "rmUsedPunchline crd (Players g) = (None, ps1)"
    and a: "list_all2 (\<lambda>p p'. Name p' = Name p
           \<and> mset (Punchlines p') = mset (Punchlines p) - {#crd#}) (Players g) ps1"
    by blast
  have h1: "mset (hands ps1) = filter_mset (\<lambda>x. x \<noteq> crd) (mset (hands (Players g)))"
    using hands_removed[OF a each] .
  obtain e ps' pool' where
    d: "dealPunchlines rnd (?g2\<lparr>Players := ps1\<rparr>)
          = (e, ?g2\<lparr>Players := ps1\<rparr>\<lparr>Players := ps', GamePunchlines := pool'\<rparr>)"
    and e: "e = None \<or> e = Some ErrTooFewPunchlines"
    and m: "mset (hands ps') + mset pool'
          = mset (hands (Players (?g2\<lparr>Players := ps1\<rparr>)))
            + mset (GamePunchlines (?g2\<lparr>Players := ps1\<rparr>))"
    using dealPunchlines_frame[of rnd "?g2\<lparr>Players := ps1\<rparr>"] by blast
  have pool: "GamePunchlines ?g2 = GamePunchlines g"
    by (simp add: recordPlay_def Let_def)
  have "Play rnd playerName crd g
      = (None, ?g2\<lparr>Players := ps1\<rparr>\<lparr>Players := ps', GamePunchlines := pool'\<rparr>)"
    using Play_unfold[OF assms(1), of rnd playerName crd] r1 d discardError_frame[OF e] by simp
  moreover have "mset (all_cards (?g2\<lparr>Players := ps1\<rparr>\<lparr>Players := ps', GamePunchlines := pool'\<rparr>))
      = filter_mset (\<lambda>x. x \<noteq> crd) (mset (hands (Players g))) + mset (GamePunchlines g)"
    using m h1 pool by (simp add: all_cards_def)
  ultimately show ?thesis by blast
qed

lemma Play_no_panic:
  assumes "inRange g" and "\<forall>p \<in> set (Players g). count_list (Punchlines p) crd \<le> 1"
  shows "fst (Play rnd playerName crd g) = None"
proof -
  let ?g2 = "recordPlay playerName crd g"
  from rmUsedPunchline_once[OF assms(2)] obtain ps1 where
    r1: "rmUsedPunchline crd (Players g) = (None, ps1)"
    by blast
  obtain e ps' pool' where
    d: "dealPunchlines rnd (?g2\<lparr>Players := ps1\<rparr>)
          = (e, ?g2\<lparr>Players := ps1\<rparr>\<lparr>Players := ps', GamePunchlines := pool'\<rparr>)"
    and e: "e = None \<or> e = Some ErrTooFewPunchlines"
    using dealPunchlines_frame[of rnd "?g2\<lparr>Players := ps1\<rparr>"] by blast
  show ?thesis
    using Play_unfold[OF assms(1), of rnd playerName crd] r1 d discardError_frame[OF e] by simp
qed

lemma Vote_out_of_range: "\<not> inRange g \<Longrightarrow> Vote rnd playerName crd g = (Some PanicIndexRounds, g)"
  by (auto simp: Vote_def inRange_def Let_def)

text \<open>Within range, \<^verbatim>\<open>Vote\<close> never fails.\<close>

lemma Vote_in_range:
  assumes "inRange g"
  shows "Vote rnd playerName crd g =
     (if fcard (fmdom (fmupd playerName crd (Votes (currentRound g)))) = length (Players g)
      then (None, (snd (dealPunchlines rnd
               ((recordVote playerName crd g)\<lparr>RoundsRemaining := RoundsRemaining g - 1\<rparr>)))
             \<lparr>CurrentAction := PLAY\<rparr>)
      else (None, recordVote playerName crd g))"
proof -
  let ?g1 = "(recordVote playerName crd g)\<lparr>RoundsRemaining := RoundsRemaining g - 1\<rparr>"
  have rng: "\<not> (RoundsRemaining g - 1 < 0 \<or> int (length (Rounds g)) \<le> RoundsRemaining g - 1)"
    using assms by (auto simp: inRange_def)
  obtain e ps' pool' where
    d: "dealPunchlines rnd ?g1 = (e, ?g1\<lparr>Players := ps', GamePunchlines := pool'\<rparr>)"
    and e: "e = None \<or> e = Some ErrTooFewPunchlines"
    using dealPunchlines_frame[of rnd ?g1] by blast
  have de: "discardError e = None" using e by (rule discardError_frame)
  show ?thesis
    using rng d de
    by (simp add: Vote_def Let_def recordVote_def currentRound_def)
qed

lemma Vote_cards: "mset (all_cards (snd (Vote rnd playerName crd g))) = mset (all_cards g)"
proof (cases "inRange g")
  case True
  let ?g1 = "(recordVote playerName crd g)\<lparr>RoundsRemaining := RoundsRemaining g - 1\<rparr>"
  have "mset (all_cards (snd (dealPunchlines rnd ?g1))) = mset (all_cards ?g1)"
    by (rule dealPunchlines_cards)
  moreover have "all_cards ((snd (dealPunchlines rnd ?g1))\<lparr>CurrentAction := PLAY\<rparr>)
      = all_cards (snd (dealPunchlines rnd ?g1))"
    by (simp add: all_cards_def)
  moreover have "all_cards ?g1 = all_cards g" "all_cards (recordVote playerName crd g) = all_cards g"
    by (simp_all add: all_cards_def recordVote_def)
  ultimately show ?thesis using Vote_in_range[OF True, of rnd playerName crd] by simp
next
  case False
  then show ?thesis by (simp add: Vote_out_of_range)
qed

lemma distinct_mset_eq: "mset ys = mset xs \<Longrightarrow> distinct xs \<Longrightarrow> distinct ys"
  by (metis mset_eq_imp_distinct_iff)

lemma distinct_mset_sub:
  assumes "mset ys \<subseteq># mset xs" and "distinct xs"
  shows "distinct ys"
proof -
  have "count (mset ys) a = (if a \<in> set ys then 1 else 0)" for a
  proof -
    have "count (mset ys) a \<le> count (mset xs) a"
      using assms(1) by (rule mset_subset_eq_count)
    moreover have "count (mset xs) a \<le> 1"
      using assms(2) by (simp add: distinct_count_atmost_1)
    ultimately have le: "count (mset ys) a \<le> 1" by simp
    show ?thesis
    proof (cases "a \<in> set ys")
      case True
      then have "count (mset ys) a \<noteq> 0" by simp
      with le have "count (mset ys) a = 1" by linarith
      with True show ?thesis by simp
    next
      case False
      then show ?thesis by simp
    qed
  qed
  then show ?thesis by (simp add: distinct_count_atmost_1)
qed

text \<open>
  Neither \<^verbatim>\<open>Play\<close> nor \<^verbatim>\<open>Vote\<close> reads \<^verbatim>\<open>CurrentAction\<close>: a call on a game in another
  phase differs only in the phase of the resulting game.
\<close>

lemma Play_phase_independent:
  "Play rnd playerName crd (g\<lparr>CurrentAction := a\<rparr>) =
     (case Play rnd playerName crd g of
        (e, g') \<Rightarrow> (e, g'\<lparr>CurrentAction :=
              (if inRange g \<and> fcard (fmdom (fmupd playerName crd (Plays (currentRound g)))) = length (Players g)
               then VOTE else a)\<rparr>))"
  by (auto simp: Play_def Let_def dealPunchlines_def inRange_def currentRound_def split: prod.splits option.splits)

lemma Vote_phase_independent:
  "Vote rnd playerName crd (g\<lparr>CurrentAction := a\<rparr>) =
     (case Vote rnd playerName crd g of
        (e, g') \<Rightarrow> (e, g'\<lparr>CurrentAction :=
              (if inRange g \<and> fcard (fmdom (fmupd playerName crd (Votes (currentRound g)))) = length (Players g)
               then PLAY else a)\<rparr>))"
  using dealPlayers_frame[of rnd "GamePunchlines g" "Players g"]
  by (auto simp: Vote_def Let_def dealPunchlines_def inRange_def currentRound_def
        discardError_def isPanic_def split: prod.splits option.splits)

text \<open>What a \<^verbatim>\<open>Play\<close> call within range leaves of the game, whether or not it panics.\<close>

lemma Play_step:
  assumes "inRange g"
  shows "inRange (snd (Play rnd playerName crd g))"
    and "RoundsRemaining (snd (Play rnd playerName crd g)) = RoundsRemaining g"
    and "length (Players (snd (Play rnd playerName crd g))) = length (Players g)"
    and "Rounds (snd (Play rnd playerName crd g))
          = (Rounds g)[nat (RoundsRemaining g - 1) :=
               (currentRound g)\<lparr>Plays := fmupd playerName crd (Plays (currentRound g))\<rparr>]"
    and "currentRound (snd (Play rnd playerName crd g))
          = (currentRound g)\<lparr>Plays := fmupd playerName crd (Plays (currentRound g))\<rparr>"
    and "CurrentAction (snd (Play rnd playerName crd g))
          = (if fcard (fmdom (fmupd playerName crd (Plays (currentRound g)))) = length (Players g)
             then VOTE else CurrentAction g)"
proof -
  from Play_in_range[OF assms, of rnd playerName crd] obtain e ps' pool' where
    r: "Play rnd playerName crd g
            = (e, (recordPlay playerName crd g)\<lparr>Players := ps', GamePunchlines := pool'\<rparr>)"
    and n: "map Name ps' = map Name (Players g)"
    by blast
  have l: "length ps' = length (Players g)" using n by (rule map_eq_imp_length_eq)
  have i: "nat (RoundsRemaining g - 1) < length (Rounds g)"
    using assms by (auto simp: inRange_def)
  show "inRange (snd (Play rnd playerName crd g))"
    using r assms by (simp add: recordPlay_def Let_def inRange_def)
  show "RoundsRemaining (snd (Play rnd playerName crd g)) = RoundsRemaining g"
    using r by (simp add: recordPlay_def Let_def)
  show "length (Players (snd (Play rnd playerName crd g))) = length (Players g)"
    using r l by simp
  show "Rounds (snd (Play rnd playerName crd g))
          = (Rounds g)[nat (RoundsRemaining g - 1) :=
               (currentRound g)\<lparr>Plays := fmupd playerName crd (Plays (currentRound g))\<rparr>]"
    using r by (simp add: recordPlay_def Let_def)
  show "currentRound (snd (Play rnd playerName crd g))
          = (currentRound g)\<lparr>Plays := fmupd playerName crd (Plays (currentRound g))\<rparr>"
    using r i by (simp add: recordPlay_def Let_def currentRound_def)
  show "CurrentAction (snd (Play rnd playerName crd g))
          = (if fcard (fmdom (fmupd playerName crd (Plays (currentRound g)))) = length (Players g)
             then VOTE else CurrentAction g)"
    using r by (simp add: recordPlay_def Let_def)
qed

lemma fcard_mono_union: "fcard (finsert x D) \<le> fcard (finsert x (D |\<union>| E))"
  by (rule fcard_mono) auto

lemma plays_below:
  "inRange g \<Longrightarrow>
   fcard (fmdom (Plays (currentRound g)) |\<union>| fset_of_list (map (\<lambda>c. fst (snd c)) calls))
     < length (Players g) \<Longrightarrow>
   CurrentAction (plays calls g) = CurrentAction g
   \<and> RoundsRemaining (plays calls g) = RoundsRemaining g"
proof (induction calls arbitrary: g)
  case Nil
  then show ?case by simp
next
  case (Cons call calls)
  obtain rnd playerName crd where call: "call = (rnd, playerName, crd)"
    by (cases call)
  let ?g1 = "snd (Play rnd playerName crd g)"
  let ?D = "fmdom (Plays (currentRound g))"
  note st = Play_step[OF Cons.prems(1), of rnd playerName crd]
  have dom1: "fmdom (Plays (currentRound ?g1)) = finsert playerName ?D"
    using st(5) by simp
  have total: "fcard (finsert playerName (?D |\<union>| fset_of_list (map (\<lambda>c. fst (snd c)) calls)))
      < length (Players g)"
    using Cons.prems(2) call by simp
  have "fcard (finsert playerName ?D) < length (Players g)"
    using fcard_mono_union[of playerName ?D "fset_of_list (map (\<lambda>c. fst (snd c)) calls)"] total
    by simp
  then have ca: "CurrentAction ?g1 = CurrentAction g" using st(6) by simp
  have "fcard (fmdom (Plays (currentRound ?g1)) |\<union>| fset_of_list (map (\<lambda>c. fst (snd c)) calls))
      < length (Players ?g1)"
    using total dom1 st(3) by simp
  from Cons.IH[OF st(1) this] ca st(2) call show ?case by simp
qed

text \<open>
  Claim C10, as the code has it. \<^verbatim>\<open>Play\<close> and \<^verbatim>\<open>Vote\<close> read and write \<^verbatim>\<open>g.Rounds\<close> at
  the one index \<^verbatim>\<open>g.RoundsRemaining-1\<close>. When \<open>1 \<le> RoundsRemaining \<le> len(Rounds)\<close> the
  index is within the bounds of \<^verbatim>\<open>g.Rounds\<close>; in every other state both calls panic on
  that index, before they change anything. The precondition is therefore exactly the
  condition under which the accesses to the rounds are safe, and exactly the condition
  under which a call of \<^verbatim>\<open>Vote\<close> is safe, since \<^verbatim>\<open>Vote\<close> indexes nothing else. For
  \<^verbatim>\<open>Play\<close> it is necessary and not sufficient: under it the one panic left is the
  one of the removal loop, on the index of a hand, and there is none when no hand holds
  the played card more than once.
\<close>

theorem rounds_index_in_bounds:
  "(1 \<le> RoundsRemaining g \<and> RoundsRemaining g \<le> int (length (Rounds g)) \<longrightarrow>
      0 \<le> RoundsRemaining g - 1 \<and> nat (RoundsRemaining g - 1) < length (Rounds g)
      \<and> (fst (Play rnd playerName crd g) = None
           \<or> fst (Play rnd playerName crd g) = Some PanicIndexPunchlines)
      \<and> fst (Vote rnd playerName crd g) = None
      \<and> ((\<forall>p \<in> set (Players g). count_list (Punchlines p) crd \<le> 1) \<longrightarrow>
            fst (Play rnd playerName crd g) = None))
   \<and> (\<not> (1 \<le> RoundsRemaining g \<and> RoundsRemaining g \<le> int (length (Rounds g))) \<longrightarrow>
      Play rnd playerName crd g = (Some PanicIndexRounds, g)
      \<and> Vote rnd playerName crd g = (Some PanicIndexRounds, g))"
proof (cases "inRange g")
  case True
  from Play_in_range[OF True, of rnd playerName crd]
  have "fst (Play rnd playerName crd g) = None
      \<or> fst (Play rnd playerName crd g) = Some PanicIndexPunchlines"
    by auto
  moreover have "fst (Vote rnd playerName crd g) = None"
    using Vote_in_range[OF True, of rnd playerName crd] by simp
  moreover have "fst (Play rnd playerName crd g) = None"
    if "\<forall>p \<in> set (Players g). count_list (Punchlines p) crd \<le> 1"
    using Play_no_panic[OF True that] .
  ultimately show ?thesis using True by (auto simp: inRange_def)
next
  case False
  then show ?thesis
    using Play_out_of_range[OF False] Vote_out_of_range[OF False] by (simp add: inRange_def)
qed

text \<open>
  The session in range, where both calls succeed, and with the counter at 0 and at 2,
  where both panic on the index of the round.
\<close>

theorem rounds_index_in_bounds_witness:
  "fst (Play zeros ''al'' ''a1'' session) = None
   \<and> fst (Vote zeros ''al'' ''a1'' session) = None
   \<and> Play zeros ''al'' ''a1'' (session\<lparr>RoundsRemaining := 0\<rparr>)
        = (Some PanicIndexRounds, session\<lparr>RoundsRemaining := 0\<rparr>)
   \<and> Vote zeros ''al'' ''a1'' (session\<lparr>RoundsRemaining := 2\<rparr>)
        = (Some PanicIndexRounds, session\<lparr>RoundsRemaining := 2\<rparr>)"
  using rounds_index_in_bounds[of session zeros "''al''" "''a1''"]
    rounds_index_in_bounds[of "session\<lparr>RoundsRemaining := 0\<rparr>" zeros "''al''" "''a1''"]
    rounds_index_in_bounds[of "session\<lparr>RoundsRemaining := 2\<rparr>" zeros "''al''" "''a1''"]
  by (simp add: session_def al_def bob_def)

text \<open>
  The claim as written fails for \<^verbatim>\<open>Play\<close>: the precondition holds and the call panics
  on the index of a hand. The pool holds the card \<open>x\<close> twice, the refill deals both to
  \<open>al\<close>, the second as the last card of the hand, and \<open>al\<close> plays \<open>x\<close>.
\<close>

theorem play_hand_index_counterexample:
  "dealPunchlines zeros duplicated
     = (None, duplicated\<lparr>Players := [\<lparr>Name = ''al'',
           Punchlines = [''x'', ''q5'', ''q4'', ''q3'', ''q2'', ''x'']\<rparr>],
         GamePunchlines := []\<rparr>)
   \<and> 1 \<le> RoundsRemaining dealtTwice
   \<and> RoundsRemaining dealtTwice \<le> int (length (Rounds dealtTwice))
   \<and> fst (Play zeros ''al'' ''x'' dealtTwice) = Some PanicIndexPunchlines"
  by code_simp

text \<open>
  Claim C1, as the code has it. \<^verbatim>\<open>Play\<close> and \<^verbatim>\<open>Vote\<close> are not gated by the phase:
  whenever \<open>1 \<le> RoundsRemaining \<le> len(Rounds)\<close>, a play call records the play in the
  current round and a vote call records the vote, whatever \<^verbatim>\<open>CurrentAction\<close> is, and the
  outcome, the rounds and the hands do not depend on \<^verbatim>\<open>CurrentAction\<close>. Once
  \<^verbatim>\<open>RoundsRemaining\<close> has reached 0, every further play or vote call fails without
  changing the session, by an index-out-of-range panic; there is no error
  \<^verbatim>\<open>GameFinished\<close>.
\<close>

theorem play_vote_not_gated:
  "(inRange g \<longrightarrow>
      fst (Play rnd playerName crd g) \<noteq> Some PanicIndexRounds
      \<and> fmlookup (Plays (Rounds (snd (Play rnd playerName crd g)) ! nat (RoundsRemaining g - 1)))
           playerName = Some crd
      \<and> fst (Vote rnd playerName crd g) = None
      \<and> fmlookup (Votes (Rounds (snd (Vote rnd playerName crd g)) ! nat (RoundsRemaining g - 1)))
           playerName = Some crd)
   \<and> fst (Play rnd playerName crd (g\<lparr>CurrentAction := a\<rparr>)) = fst (Play rnd playerName crd g)
   \<and> Rounds (snd (Play rnd playerName crd (g\<lparr>CurrentAction := a\<rparr>)))
       = Rounds (snd (Play rnd playerName crd g))
   \<and> Players (snd (Play rnd playerName crd (g\<lparr>CurrentAction := a\<rparr>)))
       = Players (snd (Play rnd playerName crd g))
   \<and> fst (Vote rnd playerName crd (g\<lparr>CurrentAction := a\<rparr>)) = fst (Vote rnd playerName crd g)
   \<and> Rounds (snd (Vote rnd playerName crd (g\<lparr>CurrentAction := a\<rparr>)))
       = Rounds (snd (Vote rnd playerName crd g))
   \<and> RoundsRemaining (snd (Vote rnd playerName crd (g\<lparr>CurrentAction := a\<rparr>)))
       = RoundsRemaining (snd (Vote rnd playerName crd g))
   \<and> (RoundsRemaining g = 0 \<longrightarrow>
        Play rnd playerName crd g = (Some PanicIndexRounds, g)
        \<and> Vote rnd playerName crd g = (Some PanicIndexRounds, g))"
proof -
  have A: "fst (Play rnd playerName crd g) \<noteq> Some PanicIndexRounds
      \<and> fmlookup (Plays (Rounds (snd (Play rnd playerName crd g)) ! nat (RoundsRemaining g - 1)))
           playerName = Some crd
      \<and> fst (Vote rnd playerName crd g) = None
      \<and> fmlookup (Votes (Rounds (snd (Vote rnd playerName crd g)) ! nat (RoundsRemaining g - 1)))
           playerName = Some crd" if r: "inRange g"
  proof -
    have i: "nat (RoundsRemaining g - 1) < length (Rounds g)"
      using r by (auto simp: inRange_def)
    from Play_in_range[OF r, of rnd playerName crd]
    have p1: "fst (Play rnd playerName crd g) \<noteq> Some PanicIndexRounds" by auto
    have p2: "fmlookup (Plays (Rounds (snd (Play rnd playerName crd g)) ! nat (RoundsRemaining g - 1)))
           playerName = Some crd"
      using Play_step(4)[OF r, of rnd playerName crd] i by simp
    have rv: "Rounds (snd (dealPunchlines rnd' g')) = Rounds g'" for rnd' and g' :: Game
      by (simp add: dealPunchlines_def split: prod.splits)
    have v: "fst (Vote rnd playerName crd g) = None
       \<and> fmlookup (Votes (Rounds (snd (Vote rnd playerName crd g)) ! nat (RoundsRemaining g - 1)))
           playerName = Some crd"
      using Vote_in_range[OF r, of rnd playerName crd] i
      by (simp add: rv recordVote_def)
    from p1 p2 v show ?thesis by simp
  qed
  have B: "fst (Play rnd playerName crd (g\<lparr>CurrentAction := a\<rparr>)) = fst (Play rnd playerName crd g)
   \<and> Rounds (snd (Play rnd playerName crd (g\<lparr>CurrentAction := a\<rparr>)))
       = Rounds (snd (Play rnd playerName crd g))
   \<and> Players (snd (Play rnd playerName crd (g\<lparr>CurrentAction := a\<rparr>)))
       = Players (snd (Play rnd playerName crd g))"
    by (simp add: Play_phase_independent split: prod.splits)
  have C: "fst (Vote rnd playerName crd (g\<lparr>CurrentAction := a\<rparr>)) = fst (Vote rnd playerName crd g)
   \<and> Rounds (snd (Vote rnd playerName crd (g\<lparr>CurrentAction := a\<rparr>)))
       = Rounds (snd (Vote rnd playerName crd g))
   \<and> RoundsRemaining (snd (Vote rnd playerName crd (g\<lparr>CurrentAction := a\<rparr>)))
       = RoundsRemaining (snd (Vote rnd playerName crd g))"
    by (simp add: Vote_phase_independent split: prod.splits)
  have D: "Play rnd playerName crd g = (Some PanicIndexRounds, g)
        \<and> Vote rnd playerName crd g = (Some PanicIndexRounds, g)" if "RoundsRemaining g = 0"
  proof -
    from that have "\<not> inRange g" by (simp add: inRange_def)
    then show ?thesis by (simp add: Play_out_of_range Vote_out_of_range)
  qed
  from A B C D show ?thesis by blast
qed

theorem play_vote_not_gated_witness:
  "fmlookup (Plays (Rounds (snd (Play zeros ''al'' ''a1'' (session\<lparr>CurrentAction := VOTE\<rparr>))) ! 0))
      ''al'' = Some ''a1''
   \<and> fmlookup (Votes (Rounds (snd (Vote zeros ''al'' ''a1'' session)) ! 0)) ''al'' = Some ''a1''
   \<and> Play zeros ''al'' ''a1'' (session\<lparr>RoundsRemaining := 0\<rparr>)
        = (Some PanicIndexRounds, session\<lparr>RoundsRemaining := 0\<rparr>)"
proof -
  have 1: "inRange (session\<lparr>CurrentAction := VOTE\<rparr>)" and 2: "inRange session"
    by (simp_all add: session_def inRange_def)
  have 3: "RoundsRemaining (session\<lparr>CurrentAction := VOTE\<rparr>) = 1" "RoundsRemaining session = 1"
    by (simp_all add: session_def)
  from play_vote_not_gated[of "session\<lparr>CurrentAction := VOTE\<rparr>" zeros "''al''" "''a1''" VOTE]
    play_vote_not_gated[of session zeros "''al''" "''a1''" VOTE]
    play_vote_not_gated[of "session\<lparr>RoundsRemaining := 0\<rparr>" zeros "''al''" "''a1''" VOTE]
    1 2 3
  show ?thesis by simp
qed

text \<open>
  The claim as written fails: a play call in phase \<^verbatim>\<open>vote\<close> and a vote call in phase
  \<^verbatim>\<open>play\<close> are accepted and change the session, and a play call on a finished game is
  a panic.
\<close>

theorem play_in_voting_phase_counterexample:
  "CurrentAction (session\<lparr>CurrentAction := VOTE\<rparr>) = VOTE
   \<and> Play zeros ''al'' ''a1'' (session\<lparr>CurrentAction := VOTE\<rparr>)
       = (None, session\<lparr>CurrentAction := VOTE,
            Rounds := [zeroRound\<lparr>Plays := fmupd ''al'' ''a1'' fmempty\<rparr>],
            Players := [al\<lparr>Punchlines := [''a6'', ''a2'', ''a3'', ''a4'', ''a5'', ''p1'']\<rparr>, bob],
            GamePunchlines := [''p2'']\<rparr>)
   \<and> Vote zeros ''al'' ''a1'' session
       = (None, session\<lparr>Rounds := [zeroRound\<lparr>Votes := fmupd ''al'' ''a1'' fmempty\<rparr>]\<rparr>)
   \<and> Play zeros ''al'' ''a1'' (session\<lparr>RoundsRemaining := 0\<rparr>)
       = (Some PanicIndexRounds, session\<lparr>RoundsRemaining := 0\<rparr>)"
  by code_simp

text \<open>
  Claim C2, for a game with \<open>1 \<le> RoundsRemaining \<le> len(Rounds)\<close> and \<open>P\<close> players.
  Play calls that leave fewer than \<open>P\<close> names in the plays of the current round (so play
  calls by fewer than \<open>P\<close> distinct players in a round that starts with no plays) leave
  the phase as it is. A play call sets the phase to \<^verbatim>\<open>vote\<close> exactly when the plays of
  the current round then hold \<open>P\<close> names, and it leaves \<^verbatim>\<open>RoundsRemaining\<close> as it is. A
  vote call after which the votes hold \<open>P\<close> names takes one from \<^verbatim>\<open>RoundsRemaining\<close>,
  refills the hands (hands and pool are those of \<^verbatim>\<open>dealPunchlines\<close>) and sets the phase
  to \<^verbatim>\<open>play\<close>; any other vote call leaves counter, phase, hands and pool as they are.
\<close>

theorem phase_cycle:
  "inRange g \<longrightarrow>
     (fcard (fmdom (Plays (currentRound g)) |\<union>| fset_of_list (map (\<lambda>c. fst (snd c)) calls))
        < length (Players g) \<longrightarrow>
      CurrentAction (plays calls g) = CurrentAction g)
     \<and> CurrentAction (snd (Play rnd playerName crd g))
         = (if fcard (fmdom (fmupd playerName crd (Plays (currentRound g)))) = length (Players g)
            then VOTE else CurrentAction g)
     \<and> RoundsRemaining (snd (Play rnd playerName crd g)) = RoundsRemaining g
     \<and> (fcard (fmdom (fmupd playerName crd (Votes (currentRound g)))) = length (Players g) \<longrightarrow>
          fst (Vote rnd playerName crd g) = None
          \<and> RoundsRemaining (snd (Vote rnd playerName crd g)) = RoundsRemaining g - 1
          \<and> CurrentAction (snd (Vote rnd playerName crd g)) = PLAY
          \<and> Players (snd (Vote rnd playerName crd g)) = Players (snd (dealPunchlines rnd g))
          \<and> GamePunchlines (snd (Vote rnd playerName crd g))
              = GamePunchlines (snd (dealPunchlines rnd g)))
     \<and> (fcard (fmdom (fmupd playerName crd (Votes (currentRound g)))) \<noteq> length (Players g) \<longrightarrow>
          fst (Vote rnd playerName crd g) = None
          \<and> RoundsRemaining (snd (Vote rnd playerName crd g)) = RoundsRemaining g
          \<and> CurrentAction (snd (Vote rnd playerName crd g)) = CurrentAction g
          \<and> Players (snd (Vote rnd playerName crd g)) = Players g
          \<and> GamePunchlines (snd (Vote rnd playerName crd g)) = GamePunchlines g)"
proof
  assume r: "inRange g"
  let ?g1 = "(recordVote playerName crd g)\<lparr>RoundsRemaining := RoundsRemaining g - 1\<rparr>"
  have other: "RoundsRemaining (snd (dealPunchlines rnd' g')) = RoundsRemaining g'"
    for rnd' and g' :: Game
    by (simp add: dealPunchlines_def split: prod.splits)
  have g1: "?g1 = g\<lparr>Rounds := Rounds (recordVote playerName crd g),
                    RoundsRemaining := RoundsRemaining g - 1\<rparr>"
    by (simp add: recordVote_def)
  have deal: "Players (snd (dealPunchlines rnd ?g1)) = Players (snd (dealPunchlines rnd g))"
    "GamePunchlines (snd (dealPunchlines rnd ?g1)) = GamePunchlines (snd (dealPunchlines rnd g))"
    unfolding g1 using dealPunchlines_other_fields by blast+
  have A: "CurrentAction (plays calls g) = CurrentAction g"
    if "fcard (fmdom (Plays (currentRound g)) |\<union>| fset_of_list (map (\<lambda>c. fst (snd c)) calls))
        < length (Players g)"
    using plays_below[OF r that] by simp
  have B: "CurrentAction (snd (Play rnd playerName crd g))
         = (if fcard (fmdom (fmupd playerName crd (Plays (currentRound g)))) = length (Players g)
            then VOTE else CurrentAction g)"
    "RoundsRemaining (snd (Play rnd playerName crd g)) = RoundsRemaining g"
    using Play_step[OF r, of rnd playerName crd] by simp_all
  have C: "fst (Vote rnd playerName crd g) = None
          \<and> RoundsRemaining (snd (Vote rnd playerName crd g)) = RoundsRemaining g - 1
          \<and> CurrentAction (snd (Vote rnd playerName crd g)) = PLAY
          \<and> Players (snd (Vote rnd playerName crd g)) = Players (snd (dealPunchlines rnd g))
          \<and> GamePunchlines (snd (Vote rnd playerName crd g))
              = GamePunchlines (snd (dealPunchlines rnd g))"
    if "fcard (fmdom (fmupd playerName crd (Votes (currentRound g)))) = length (Players g)"
    using Vote_in_range[OF r, of rnd playerName crd] that deal by (simp add: other)
  have D: "fst (Vote rnd playerName crd g) = None
          \<and> RoundsRemaining (snd (Vote rnd playerName crd g)) = RoundsRemaining g
          \<and> CurrentAction (snd (Vote rnd playerName crd g)) = CurrentAction g
          \<and> Players (snd (Vote rnd playerName crd g)) = Players g
          \<and> GamePunchlines (snd (Vote rnd playerName crd g)) = GamePunchlines g"
    if "fcard (fmdom (fmupd playerName crd (Votes (currentRound g)))) \<noteq> length (Players g)"
    using Vote_in_range[OF r, of rnd playerName crd] that by (simp add: recordVote_def)
  from A B C D show "(fcard (fmdom (Plays (currentRound g)) |\<union>| fset_of_list (map (\<lambda>c. fst (snd c)) calls))
        < length (Players g) \<longrightarrow>
      CurrentAction (plays calls g) = CurrentAction g)
     \<and> CurrentAction (snd (Play rnd playerName crd g))
         = (if fcard (fmdom (fmupd playerName crd (Plays (currentRound g)))) = length (Players g)
            then VOTE else CurrentAction g)
     \<and> RoundsRemaining (snd (Play rnd playerName crd g)) = RoundsRemaining g
     \<and> (fcard (fmdom (fmupd playerName crd (Votes (currentRound g)))) = length (Players g) \<longrightarrow>
          fst (Vote rnd playerName crd g) = None
          \<and> RoundsRemaining (snd (Vote rnd playerName crd g)) = RoundsRemaining g - 1
          \<and> CurrentAction (snd (Vote rnd playerName crd g)) = PLAY
          \<and> Players (snd (Vote rnd playerName crd g)) = Players (snd (dealPunchlines rnd g))
          \<and> GamePunchlines (snd (Vote rnd playerName crd g))
              = GamePunchlines (snd (dealPunchlines rnd g)))
     \<and> (fcard (fmdom (fmupd playerName crd (Votes (currentRound g)))) \<noteq> length (Players g) \<longrightarrow>
          fst (Vote rnd playerName crd g) = None
          \<and> RoundsRemaining (snd (Vote rnd playerName crd g)) = RoundsRemaining g
          \<and> CurrentAction (snd (Vote rnd playerName crd g)) = CurrentAction g
          \<and> Players (snd (Vote rnd playerName crd g)) = Players g
          \<and> GamePunchlines (snd (Vote rnd playerName crd g)) = GamePunchlines g)"
    by blast
qed

text \<open>
  The session of two players and one round: after the first play the phase is still
  \<^verbatim>\<open>play\<close>, after the second it is \<^verbatim>\<open>vote\<close>; the first vote changes nothing, the second
  takes \<^verbatim>\<open>RoundsRemaining\<close> from 1 to 0 and sets the phase to \<^verbatim>\<open>play\<close>.
\<close>

theorem phase_cycle_witness:
  "CurrentAction session = PLAY
   \<and> CurrentAction (plays [(zeros, ''al'', ''a1'')] session) = PLAY
   \<and> CurrentAction onePlayed = PLAY
   \<and> CurrentAction bothPlayed = VOTE
   \<and> RoundsRemaining oneVoted = 1 \<and> CurrentAction oneVoted = VOTE
   \<and> RoundsRemaining bothVoted = 0 \<and> CurrentAction bothVoted = PLAY"
proof -
  have s: "inRange session" "CurrentAction session = PLAY"
    "fcard (fmdom (Plays (currentRound session))
        |\<union>| fset_of_list (map (\<lambda>c. fst (snd c)) [(zeros, ''al'', ''a1'')]))
      < length (Players session)"
    "fcard (fmdom (fmupd ''al'' ''a1'' (Plays (currentRound session)))) \<noteq> length (Players session)"
    by code_simp+
  have o: "inRange onePlayed"
    "fcard (fmdom (fmupd ''bob'' ''b1'' (Plays (currentRound onePlayed)))) = length (Players onePlayed)"
    by code_simp+
  have b: "inRange bothPlayed" "RoundsRemaining bothPlayed = 1"
    "fcard (fmdom (fmupd ''al'' ''b1'' (Votes (currentRound bothPlayed)))) \<noteq> length (Players bothPlayed)"
    by code_simp+
  have v: "inRange oneVoted"
    "fcard (fmdom (fmupd ''bob'' ''a1'' (Votes (currentRound oneVoted)))) = length (Players oneVoted)"
    by code_simp+
  from phase_cycle[of session "[(zeros, ''al'', ''a1'')]" zeros "''al''" "''a1''"] s
  have 1: "CurrentAction (plays [(zeros, ''al'', ''a1'')] session) = PLAY"
    "CurrentAction onePlayed = PLAY"
    by (simp_all add: onePlayed_def)
  from phase_cycle[of onePlayed "[]" zeros "''bob''" "''b1''"] o
  have 2: "CurrentAction bothPlayed = VOTE" by (simp add: bothPlayed_def)
  from phase_cycle[of bothPlayed "[]" zeros "''al''" "''b1''"] b 2
  have 3: "RoundsRemaining oneVoted = 1" "CurrentAction oneVoted = VOTE"
    by (simp_all add: oneVoted_def)
  from phase_cycle[of oneVoted "[]" zeros "''bob''" "''a1''"] v 3
  have 4: "RoundsRemaining bothVoted = 0" "CurrentAction bothVoted = PLAY"
    by (simp_all add: bothVoted_def)
  from s(2) 1 2 3 4 show ?thesis by simp
qed

text \<open>
  Claim C3, as the code has it. When the hands and the pool hold no card twice, they hold
  no card twice after a refill, a vote call or a play call. A refill and a vote call leave
  the multiset of these cards as it is. A play call with
  \<open>1 \<le> RoundsRemaining \<le> len(Rounds)\<close> takes the played card out of it when a hand
  holds the card, so that the total goes down by one; otherwise it leaves the multiset as
  it is.
\<close>

theorem cards_never_duplicated:
  "distinct (all_cards g) \<longrightarrow>
     mset (all_cards (snd (dealPunchlines rnd g))) = mset (all_cards g)
     \<and> distinct (all_cards (snd (dealPunchlines rnd g)))
     \<and> mset (all_cards (snd (Vote rnd playerName crd g))) = mset (all_cards g)
     \<and> distinct (all_cards (snd (Vote rnd playerName crd g)))
     \<and> mset (all_cards (snd (Play rnd playerName crd g)))
         = (if inRange g \<and> crd \<in> set (hands (Players g)) then mset (all_cards g) - {#crd#}
            else mset (all_cards g))
     \<and> distinct (all_cards (snd (Play rnd playerName crd g)))"
proof
  assume d: "distinct (all_cards g)"
  then have dh: "distinct (hands (Players g))" by (simp add: all_cards_def)
  have deal: "mset (all_cards (snd (dealPunchlines rnd g))) = mset (all_cards g)"
    by (rule dealPunchlines_cards)
  have vote: "mset (all_cards (snd (Vote rnd playerName crd g))) = mset (all_cards g)"
    by (rule Vote_cards)
  have play: "mset (all_cards (snd (Play rnd playerName crd g)))
         = (if inRange g \<and> crd \<in> set (hands (Players g)) then mset (all_cards g) - {#crd#}
            else mset (all_cards g))"
  proof (cases "inRange g")
    case True
    from Play_cards[OF True dh, of rnd playerName crd]
    have m: "mset (all_cards (snd (Play rnd playerName crd g)))
        = filter_mset (\<lambda>x. x \<noteq> crd) (mset (hands (Players g))) + mset (GamePunchlines g)"
      by auto
    show ?thesis
    proof (cases "crd \<in> set (hands (Players g))")
      case in_hand: True
      have "filter_mset (\<lambda>x. x \<noteq> crd) (mset (hands (Players g)))
          = mset (hands (Players g)) - {#crd#}"
        using dh by (rule filter_neq_distinct)
      then show ?thesis using m True in_hand by (simp add: all_cards_def)
    next
      case False
      then have "filter_mset (\<lambda>x. x \<noteq> crd) (mset (hands (Players g))) = mset (hands (Players g))"
        by (auto simp: filter_mset_eq_conv)
      then show ?thesis using m True False by (simp add: all_cards_def)
    qed
  next
    case False
    then show ?thesis by (simp add: Play_out_of_range)
  qed
  have sub: "mset (all_cards (snd (Play rnd playerName crd g))) \<subseteq># mset (all_cards g)"
    using play by (simp split: if_splits)
  from deal vote play d sub
  show "mset (all_cards (snd (dealPunchlines rnd g))) = mset (all_cards g)
     \<and> distinct (all_cards (snd (dealPunchlines rnd g)))
     \<and> mset (all_cards (snd (Vote rnd playerName crd g))) = mset (all_cards g)
     \<and> distinct (all_cards (snd (Vote rnd playerName crd g)))
     \<and> mset (all_cards (snd (Play rnd playerName crd g)))
         = (if inRange g \<and> crd \<in> set (hands (Players g)) then mset (all_cards g) - {#crd#}
            else mset (all_cards g))
     \<and> distinct (all_cards (snd (Play rnd playerName crd g)))"
    using distinct_mset_eq distinct_mset_sub by blast
qed

theorem cards_never_duplicated_witness:
  "distinct (all_cards session)
   \<and> size (mset (all_cards (snd (dealPunchlines zeros session)))) = 14
   \<and> size (mset (all_cards (snd (Vote zeros ''al'' ''b1'' session)))) = 14
   \<and> mset (all_cards (snd (Play zeros ''al'' ''a2'' session))) = mset (all_cards session) - {#''a2''#}
   \<and> distinct (all_cards (snd (Play zeros ''al'' ''a2'' session)))"
proof -
  have d: "distinct (all_cards session)" by code_simp
  have i: "inRange session" "''a2'' \<in> set (hands (Players session))" by code_simp+
  have n: "size (mset (all_cards session)) = 14" by code_simp
  from cards_never_duplicated[of session zeros "''al''" "''b1''"] d n
  have 1: "size (mset (all_cards (snd (dealPunchlines zeros session)))) = 14"
    "size (mset (all_cards (snd (Vote zeros ''al'' ''b1'' session)))) = 14"
    by simp_all
  from cards_never_duplicated[of session zeros "''al''" "''a2''"] d i
  have 2: "mset (all_cards (snd (Play zeros ''al'' ''a2'' session))) = mset (all_cards session) - {#''a2''#}"
    "distinct (all_cards (snd (Play zeros ''al'' ''a2'' session)))"
    by simp_all
  from d 1 2 show ?thesis by simp
qed

text \<open>
  The claim as written fails on a play call: the played card leaves the hands and does
  not go to the pool, so fourteen cards become thirteen.
\<close>

theorem play_consumes_card_counterexample:
  "length (all_cards session) = 14
   \<and> fst (Play zeros ''al'' ''a2'' session) = None
   \<and> length (all_cards (snd (Play zeros ''al'' ''a2'' session))) = 13"
  by code_simp

text \<open>
  Claim C8, as the code has it. \<^verbatim>\<open>AddPlayer\<close> with the name of a player of the game
  returns its error and leaves the game as it is. With a new name it appends the player
  and then refills: it fails with \<^verbatim>\<open>ErrTooFewPunchlines\<close> exactly when the pool does not
  cover the deficits, and the player stays appended whether it fails or not. \<^verbatim>\<open>Play\<close>
  and \<^verbatim>\<open>Vote\<close> return no error; they fail by a panic only, and the panic on the index
  of the round leaves the game as it is.
\<close>

theorem failed_calls:
  "(list_ex (\<lambda>p. Name p = Name player) (Players g) \<longrightarrow>
      AddPlayer rnd player g = (Some ErrPlayerNameExists, g))
   \<and> (\<not> list_ex (\<lambda>p. Name p = Name player) (Players g) \<longrightarrow>
      map Name (Players (snd (AddPlayer rnd player g))) = map Name (Players g) @ [Name player]
      \<and> (length (GamePunchlines g) < need (Players g @ [player]) \<longrightarrow>
           fst (AddPlayer rnd player g) = Some ErrTooFewPunchlines)
      \<and> (need (Players g @ [player]) \<le> length (GamePunchlines g) \<longrightarrow>
           fst (AddPlayer rnd player g) = None))
   \<and> (fst (Play rnd playerName crd g) = None
        \<or> fst (Play rnd playerName crd g) = Some PanicIndexRounds
        \<or> fst (Play rnd playerName crd g) = Some PanicIndexPunchlines)
   \<and> (fst (Vote rnd playerName crd g) = None
        \<or> fst (Vote rnd playerName crd g) = Some PanicIndexRounds)
   \<and> (fst (Play rnd playerName crd g) = Some PanicIndexRounds \<longrightarrow>
        snd (Play rnd playerName crd g) = g)
   \<and> (fst (Vote rnd playerName crd g) = Some PanicIndexRounds \<longrightarrow>
        snd (Vote rnd playerName crd g) = g)"
proof -
  let ?g = "g\<lparr>Players := Players g @ [player]\<rparr>"
  have A: "AddPlayer rnd player g = (Some ErrPlayerNameExists, g)"
    if "list_ex (\<lambda>p. Name p = Name player) (Players g)"
    using that by (simp add: AddPlayer_def)
  have B: "map Name (Players (snd (AddPlayer rnd player g))) = map Name (Players g) @ [Name player]
      \<and> (length (GamePunchlines g) < need (Players g @ [player]) \<longrightarrow>
           fst (AddPlayer rnd player g) = Some ErrTooFewPunchlines)
      \<and> (need (Players g @ [player]) \<le> length (GamePunchlines g) \<longrightarrow>
           fst (AddPlayer rnd player g) = None)"
    if n: "\<not> list_ex (\<lambda>p. Name p = Name player) (Players g)"
  proof -
    have a: "AddPlayer rnd player g = dealPunchlines rnd ?g"
      using n by (simp add: AddPlayer_def)
    from dealPunchlines_frame[of rnd ?g]
    have names: "map Name (Players (snd (dealPunchlines rnd ?g))) = map Name (Players g) @ [Name player]"
      by auto
    have short: "fst (dealPunchlines rnd ?g) = Some ErrTooFewPunchlines"
      if "length (GamePunchlines g) < need (Players g @ [player])"
      using dealPunchlines_fst[of rnd ?g] that by simp
    have enough: "fst (dealPunchlines rnd ?g) = None"
      if "need (Players g @ [player]) \<le> length (GamePunchlines g)"
      using dealPunchlines_fst[of rnd ?g] that by simp
    from a names short enough show ?thesis by simp
  qed
  have P: "(fst (Play rnd playerName crd g) = None
        \<or> fst (Play rnd playerName crd g) = Some PanicIndexRounds
        \<or> fst (Play rnd playerName crd g) = Some PanicIndexPunchlines)
      \<and> (fst (Play rnd playerName crd g) = Some PanicIndexRounds \<longrightarrow>
        snd (Play rnd playerName crd g) = g)"
  proof (cases "inRange g")
    case True
    from Play_in_range[OF True, of rnd playerName crd] show ?thesis by auto
  next
    case False
    then show ?thesis by (simp add: Play_out_of_range)
  qed
  have V: "(fst (Vote rnd playerName crd g) = None
        \<or> fst (Vote rnd playerName crd g) = Some PanicIndexRounds)
      \<and> (fst (Vote rnd playerName crd g) = Some PanicIndexRounds \<longrightarrow>
        snd (Vote rnd playerName crd g) = g)"
  proof (cases "inRange g")
    case True
    from Vote_in_range[OF True, of rnd playerName crd] show ?thesis by simp
  next
    case False
    then show ?thesis by (simp add: Vote_out_of_range)
  qed
  from A B P V show ?thesis by blast
qed

theorem failed_calls_witness:
  "AddPlayer zeros al session = (Some ErrPlayerNameExists, session)
   \<and> fst (AddPlayer zeros cy session) = Some ErrTooFewPunchlines
   \<and> map Name (Players (snd (AddPlayer zeros cy session))) = [''al'', ''bob'', ''cy'']
   \<and> fst (AddPlayer zeros cy (session\<lparr>GamePunchlines := [''p1'', ''p2'', ''p3'', ''p4'', ''p5'', ''p6'']\<rparr>)) = None
   \<and> snd (Play zeros ''al'' ''a1'' (session\<lparr>RoundsRemaining := 0\<rparr>)) = session\<lparr>RoundsRemaining := 0\<rparr>
   \<and> snd (Vote zeros ''al'' ''a1'' (session\<lparr>RoundsRemaining := 0\<rparr>)) = session\<lparr>RoundsRemaining := 0\<rparr>"
proof -
  have dup: "list_ex (\<lambda>p. Name p = Name al) (Players session)"
    and new: "\<not> list_ex (\<lambda>p. Name p = Name cy) (Players session)"
    and short: "length (GamePunchlines session) < need (Players session @ [cy])"
    and names: "map Name (Players session) @ [Name cy] = [''al'', ''bob'', ''cy'']"
    by code_simp+
  have new1: "\<not> list_ex (\<lambda>p. Name p = Name cy) (Players (session\<lparr>GamePunchlines := [''p1'', ''p2'', ''p3'', ''p4'', ''p5'', ''p6'']\<rparr>))"
    and enough: "need (Players (session\<lparr>GamePunchlines := [''p1'', ''p2'', ''p3'', ''p4'', ''p5'', ''p6'']\<rparr>) @ [cy])
        \<le> length (GamePunchlines (session\<lparr>GamePunchlines := [''p1'', ''p2'', ''p3'', ''p4'', ''p5'', ''p6'']\<rparr>))"
    by code_simp+
  have p: "fst (Play zeros ''al'' ''a1'' (session\<lparr>RoundsRemaining := 0\<rparr>)) = Some PanicIndexRounds"
    and v: "fst (Vote zeros ''al'' ''a1'' (session\<lparr>RoundsRemaining := 0\<rparr>)) = Some PanicIndexRounds"
    by code_simp+
  from failed_calls[of al session zeros "''al''" "''a1''"] dup
  have 1: "AddPlayer zeros al session = (Some ErrPlayerNameExists, session)" by simp
  from failed_calls[of cy session zeros "''al''" "''a1''"] new short names
  have 2: "fst (AddPlayer zeros cy session) = Some ErrTooFewPunchlines"
    "map Name (Players (snd (AddPlayer zeros cy session))) = [''al'', ''bob'', ''cy'']"
    by simp_all
  from failed_calls[of cy "session\<lparr>GamePunchlines := [''p1'', ''p2'', ''p3'', ''p4'', ''p5'', ''p6'']\<rparr>" zeros "''al''" "''a1''"] new1 enough
  have 3: "fst (AddPlayer zeros cy (session\<lparr>GamePunchlines := [''p1'', ''p2'', ''p3'', ''p4'', ''p5'', ''p6'']\<rparr>)) = None" by simp
  from failed_calls[of cy "session\<lparr>RoundsRemaining := 0\<rparr>" zeros "''al''" "''a1''"] p v
  have 4: "snd (Play zeros ''al'' ''a1'' (session\<lparr>RoundsRemaining := 0\<rparr>)) = session\<lparr>RoundsRemaining := 0\<rparr>"
    "snd (Vote zeros ''al'' ''a1'' (session\<lparr>RoundsRemaining := 0\<rparr>)) = session\<lparr>RoundsRemaining := 0\<rparr>"
    by simp_all
  from 1 2 3 4 show ?thesis by simp
qed

text \<open>
  The claim as written fails on a join that the pool cannot serve: the call returns the
  error, and the new player is in the list of players.
\<close>

theorem failed_join_keeps_player_counterexample:
  "AddPlayer zeros cy session = (Some ErrTooFewPunchlines, session\<lparr>Players := [al, bob, cy]\<rparr>)
   \<and> Players session = [al, bob]"
  by code_simp

section \<open>Round construction\<close>

lemma wrap64_id: "- (2 ^ 63) \<le> x \<Longrightarrow> x < 2 ^ 63 \<Longrightarrow> wrap64 x = x"
  by (simp add: wrap64_def)

lemma length_setupCards: "length (setupCards rs) = 2 * length rs"
  by (induction rs) (simp_all add: setupCards_def)

lemma setupCards_update:
  "k < length rs \<Longrightarrow>
   setupCards (rs[k := setSetup (i mod 2) x (rs ! k)]) = (setupCards rs)[2 * k + i mod 2 := x]"
proof (induction rs arbitrary: k)
  case Nil
  then show ?case by simp
next
  case (Cons r rs)
  show ?case
  proof (cases k)
    case 0
    have "i mod 2 = 0 \<or> i mod 2 = 1" by auto
    then show ?thesis using 0 by (auto simp: setupCards_def setSetup_def)
  next
    case (Suc k')
    with Cons.prems have "k' < length rs" by simp
    from Cons.IH[OF this] Suc show ?thesis by (simp add: setupCards_def)
  qed
qed

lemma createRounds_loop_inv:
  "createRounds_loop fuel rnd setups (int (2 * R)) i m rs = Some (e, rs') \<Longrightarrow>
   length rs = R \<Longrightarrow> i \<le> 2 * R \<Longrightarrow> 2 * R \<le> length setups \<Longrightarrow>
   length idx = i \<Longrightarrow> distinct idx \<Longrightarrow> fset (fmdom m) = set idx \<Longrightarrow>
   (\<forall>j \<in> set idx. j < length setups) \<Longrightarrow>
   take i (setupCards rs) = map (\<lambda>j. setups ! j) idx \<Longrightarrow>
   e = None \<and> length rs' = R
   \<and> (\<exists>idx'. length idx' = 2 * R \<and> distinct idx' \<and> (\<forall>j \<in> set idx'. j < length setups)
          \<and> setupCards rs' = map (\<lambda>j. setups ! j) idx')
   \<and> map Plays rs' = map Plays rs \<and> map Votes rs' = map Votes rs"
proof (induction fuel arbitrary: rnd i m rs idx)
  case 0
  then have i: "i = 2 * R" and res: "e = None" "rs' = rs"
    by (auto split: if_splits)
  have "take i (setupCards rs) = setupCards rs"
    using i 0(2) by (simp add: length_setupCards)
  with 0 i res show ?case by auto
next
  case (Suc fuel)
  show ?case
  proof (cases "i < 2 * R")
    case False
    with Suc.prems have i: "i = 2 * R" and res: "e = None" "rs' = rs"
      by (auto split: if_splits)
    have "take i (setupCards rs) = setupCards rs"
      using i Suc.prems(2) by (simp add: length_setupCards)
    with Suc.prems i res show ?thesis by auto
  next
    case True
    then have pos: "length setups \<noteq> 0" using Suc.prems(4) by auto
    define index where "index = rnd 0 mod length setups"
    have idx_lt: "index < length setups" using pos by (simp add: index_def)
    have I: "Intn rnd (length setups) = Some index" using pos by (simp add: Intn_def index_def)
    have k: "i div 2 < length rs" using True Suc.prems(2) by auto
    show ?thesis
    proof (cases "fmlookup m index \<noteq> None")
      case dup: True
      then have "createRounds_loop fuel (advance rnd) setups (int (2 * R)) i m rs = Some (e, rs')"
        using Suc.prems(1) True I by simp
      from Suc.IH[OF this Suc.prems(2-9)] show ?thesis .
    next
      case fresh: False
      let ?rs = "rs[i div 2 := setSetup (i mod 2) (setups ! index) (rs ! (i div 2))]"
      let ?m = "fmupd index (setups ! index) m"
      let ?idx = "idx @ [index]"
      have step: "createRounds_loop fuel (advance rnd) setups (int (2 * R)) (Suc i) ?m ?rs = Some (e, rs')"
        using Suc.prems(1) True I fresh k by simp
      have notin: "index \<notin> set idx"
        using fresh Suc.prems(7) by (metis fmdom_notD fmdom_notI)
      have sc: "setupCards ?rs = (setupCards rs)[i := setups ! index]"
        using setupCards_update[OF k, of i "setups ! index"] by simp
      have "take (Suc i) (setupCards ?rs) = take i (setupCards rs) @ [setups ! index]"
        using True Suc.prems(2) sc
        by (simp add: take_Suc_conv_app_nth length_setupCards)
      then have t: "take (Suc i) (setupCards ?rs) = map (\<lambda>j. setups ! j) ?idx"
        using Suc.prems(9) by simp
      have "e = None \<and> length rs' = R
        \<and> (\<exists>idx'. length idx' = 2 * R \<and> distinct idx' \<and> (\<forall>j \<in> set idx'. j < length setups)
          \<and> setupCards rs' = map (\<lambda>j. setups ! j) idx')
        \<and> map Plays rs' = map Plays ?rs \<and> map Votes rs' = map Votes ?rs"
      proof (rule Suc.IH[OF step, of ?idx])
        show "length ?rs = R" using Suc.prems(2) by simp
        show "Suc i \<le> 2 * R" using True by simp
        show "2 * R \<le> length setups" by (rule Suc.prems(4))
        show "length ?idx = Suc i" using Suc.prems(5) by simp
        show "distinct ?idx" using Suc.prems(6) notin by simp
        show "fset (fmdom ?m) = set ?idx" using Suc.prems(7) by simp
        show "\<forall>j \<in> set ?idx. j < length setups" using Suc.prems(8) idx_lt by simp
        show "take (Suc i) (setupCards ?rs) = map (\<lambda>j. setups ! j) ?idx" by (rule t)
      qed
      moreover have "map Plays ?rs = map Plays rs" "map Votes ?rs = map Votes rs"
        using k by (simp_all add: map_update setSetup_def list_update_same_conv)
      ultimately show ?thesis by simp
    qed
  qed
qed

text \<open>
  The loop returns within \<open>fuel\<close> draws when these hold enough indices that are not
  yet in \<^verbatim>\<open>setupsMap\<close>.
\<close>

lemma draws_Suc:
  "(\<lambda>k. rnd k mod n) ` {..<Suc fuel}
     = insert (rnd 0 mod n) ((\<lambda>k. advance rnd k mod n) ` {..<fuel})"
proof -
  have "{..<Suc fuel} = insert 0 (Suc ` {..<fuel})"
    by (auto simp: lessThan_Suc_eq_insert_0)
  then show ?thesis by (simp add: advance_def image_image)
qed

lemma createRounds_loop_returns:
  "needed - int i \<le> int (card ((\<lambda>k. rnd k mod length setups) ` {..<fuel} - fset (fmdom m))) \<Longrightarrow>
   createRounds_loop fuel rnd setups needed i m rs \<noteq> None"
proof (induction fuel arbitrary: rnd i m rs)
  case 0
  then show ?case by simp
next
  case (Suc fuel)
  show ?case
  proof (cases "int i < needed")
    case False
    then show ?thesis by simp
  next
    case True
    show ?thesis
    proof (cases "Intn rnd (length setups)")
      case None
      then show ?thesis using True by simp
    next
      case (Some index)
      then have index: "index = rnd 0 mod length setups"
        by (auto simp: Intn_def split: if_splits)
      let ?S = "(\<lambda>k. rnd k mod length setups) ` {..<Suc fuel}"
      let ?S' = "(\<lambda>k. advance rnd k mod length setups) ` {..<fuel}"
      have S: "?S = insert index ?S'" using draws_Suc[of rnd "length setups" fuel] index by simp
      show ?thesis
      proof (cases "fmlookup m index \<noteq> None")
        case dup: True
        then have "index \<in> fset (fmdom m)" by (auto intro: fmdomI)
        then have "?S - fset (fmdom m) = ?S' - fset (fmdom m)" using S by auto
        with Suc.prems have "needed - int i \<le> int (card (?S' - fset (fmdom m)))" by simp
        from Suc.IH[OF this] show ?thesis using True Some dup by simp
      next
        case fresh: False
        let ?m = "fmupd index (setups ! index) m"
        have "?S - fset (fmdom m) \<subseteq> insert index (?S' - fset (fmdom ?m))"
          using S by auto
        then have "card (?S - fset (fmdom m)) \<le> card (insert index (?S' - fset (fmdom ?m)))"
          by (intro card_mono) auto
        also have "\<dots> \<le> Suc (card (?S' - fset (fmdom ?m)))"
          by (rule card_insert_le_m1) simp_all
        finally have "needed - int (Suc i) \<le> int (card (?S' - fset (fmdom ?m)))"
          using Suc.prems by simp
        from Suc.IH[OF this] show ?thesis using True Some fresh by (simp split: if_splits)
      qed
    qed
  qed
qed

text \<open>
  Claim C5, as the code has it, for a round count \<open>r \<ge> 0\<close> whose double is an \<^verbatim>\<open>int\<close>.
  \<^verbatim>\<open>createRounds\<close> fails with \<^verbatim>\<open>ErrTooFewSetups\<close>, leaving the game as it is, exactly
  when \<open>len(cards) < r*2\<close>. Otherwise it never returns an error; when it returns, the game
  has exactly \<open>r\<close> rounds, whose \<open>2r\<close> setup positions hold the cards at \<open>2r\<close> pairwise
  different indices of the list, so that no setup card stands at two positions when the
  list holds no card twice; and it does return as soon as the draws hold \<open>2r\<close> different
  indices.
\<close>

theorem createRounds_rounds:
  "0 \<le> RoundsRemaining g \<and> RoundsRemaining g * 2 < 2 ^ 63 \<longrightarrow>
     (int (length setups) < RoundsRemaining g * 2 \<longrightarrow>
        createRounds fuel rnd setups g = Some (Some ErrTooFewSetups, g))
     \<and> (RoundsRemaining g * 2 \<le> int (length setups) \<longrightarrow>
        (\<forall>e g'. createRounds fuel rnd setups g = Some (e, g') \<longrightarrow>
           e = None \<and> g' = g\<lparr>Rounds := Rounds g'\<rparr>
           \<and> length (Rounds g') = nat (RoundsRemaining g)
           \<and> (\<exists>idx. length idx = 2 * nat (RoundsRemaining g) \<and> distinct idx
                 \<and> (\<forall>j \<in> set idx. j < length setups)
                 \<and> setupCards (Rounds g') = map (\<lambda>j. setups ! j) idx)
           \<and> (distinct setups \<longrightarrow> distinct (setupCards (Rounds g'))))
        \<and> (RoundsRemaining g * 2
              \<le> int (card ((\<lambda>k. rnd k mod length setups) ` {..<fuel})) \<longrightarrow>
            createRounds fuel rnd setups g \<noteq> None))"
proof (intro impI, elim conjE)
  assume r0: "0 \<le> RoundsRemaining g" and r1: "RoundsRemaining g * 2 < 2 ^ 63"
  define R where "R = nat (RoundsRemaining g)"
  have R: "RoundsRemaining g = int R" using r0 by (simp add: R_def)
  have w: "wrap64 (RoundsRemaining g * 2) = int (2 * R)"
    using r0 r1 by (simp add: wrap64_id R)
  have few: "createRounds fuel rnd setups g = Some (Some ErrTooFewSetups, g)"
    if "int (length setups) < RoundsRemaining g * 2"
    using that w by (simp add: createRounds_def Let_def R)
  have unfold: "createRounds fuel rnd setups g =
      (case createRounds_loop fuel rnd setups (int (2 * R)) 0 fmempty (replicate R zeroRound) of
         None \<Rightarrow> None | Some (e, rounds) \<Rightarrow> Some (e, g\<lparr>Rounds := rounds\<rparr>))"
    if "RoundsRemaining g * 2 \<le> int (length setups)"
    using that w r0 by (simp add: createRounds_def Let_def R)
  have part: "e = None \<and> g' = g\<lparr>Rounds := Rounds g'\<rparr>
           \<and> length (Rounds g') = nat (RoundsRemaining g)
           \<and> (\<exists>idx. length idx = 2 * nat (RoundsRemaining g) \<and> distinct idx
                 \<and> (\<forall>j \<in> set idx. j < length setups)
                 \<and> setupCards (Rounds g') = map (\<lambda>j. setups ! j) idx)
           \<and> (distinct setups \<longrightarrow> distinct (setupCards (Rounds g')))"
    if enough: "RoundsRemaining g * 2 \<le> int (length setups)"
      and res: "createRounds fuel rnd setups g = Some (e, g')" for e g'
  proof -
    from res unfold[OF enough] obtain rounds where
      l: "createRounds_loop fuel rnd setups (int (2 * R)) 0 fmempty (replicate R zeroRound)
            = Some (e, rounds)"
      and g': "g' = g\<lparr>Rounds := rounds\<rparr>"
      by (auto split: option.splits)
    have len: "2 * R \<le> length setups" using enough R by simp
    from createRounds_loop_inv[OF l _ _ len, of "[]"]
    obtain idx where e: "e = None" and lr: "length rounds = R"
      and idx: "length idx = 2 * R" "distinct idx" "\<forall>j \<in> set idx. j < length setups"
        "setupCards rounds = map (\<lambda>j. setups ! j) idx"
      by auto
    have "distinct (setupCards rounds)" if "distinct setups"
      using that idx by (simp add: distinct_map inj_on_def nth_eq_iff_index_eq)
    with e lr idx g' show ?thesis by (auto simp: R_def)
  qed
  have ret: "createRounds fuel rnd setups g \<noteq> None"
    if enough: "RoundsRemaining g * 2 \<le> int (length setups)"
      and draws: "RoundsRemaining g * 2
              \<le> int (card ((\<lambda>k. rnd k mod length setups) ` {..<fuel}))"
  proof -
    have "int (2 * R) - int 0
        \<le> int (card ((\<lambda>k. rnd k mod length setups) ` {..<fuel} - fset (fmdom fmempty)))"
      using draws R by simp
    from createRounds_loop_returns[OF this, of "replicate R zeroRound"]
    show ?thesis using unfold[OF enough] by (auto split: option.splits)
  qed
  from few part ret
  show "(int (length setups) < RoundsRemaining g * 2 \<longrightarrow>
        createRounds fuel rnd setups g = Some (Some ErrTooFewSetups, g))
     \<and> (RoundsRemaining g * 2 \<le> int (length setups) \<longrightarrow>
        (\<forall>e g'. createRounds fuel rnd setups g = Some (e, g') \<longrightarrow>
           e = None \<and> g' = g\<lparr>Rounds := Rounds g'\<rparr>
           \<and> length (Rounds g') = nat (RoundsRemaining g)
           \<and> (\<exists>idx. length idx = 2 * nat (RoundsRemaining g) \<and> distinct idx
                 \<and> (\<forall>j \<in> set idx. j < length setups)
                 \<and> setupCards (Rounds g') = map (\<lambda>j. setups ! j) idx)
           \<and> (distinct setups \<longrightarrow> distinct (setupCards (Rounds g'))))
        \<and> (RoundsRemaining g * 2
              \<le> int (card ((\<lambda>k. rnd k mod length setups) ` {..<fuel})) \<longrightarrow>
            createRounds fuel rnd setups g \<noteq> None))"
    by blast
qed

text \<open>
  \<^verbatim>\<open>TestCreateRounds\<close> and \<^verbatim>\<open>TestErrCreateRounds\<close>: three rounds from six cards, each
  card used once, and the error for three rounds from two cards.
\<close>

theorem createRounds_rounds_witness:
  "createRounds 6 counting [''test1'', ''test2''] roundsTest = Some (Some ErrTooFewSetups, roundsTest)
   \<and> createRounds 6 counting testSetups roundsTest \<noteq> None
   \<and> fst (the (createRounds 6 counting testSetups roundsTest)) = None
   \<and> length (Rounds (snd (the (createRounds 6 counting testSetups roundsTest)))) = 3
   \<and> distinct (setupCards (Rounds (snd (the (createRounds 6 counting testSetups roundsTest)))))"
proof -
  have r: "0 \<le> RoundsRemaining roundsTest \<and> RoundsRemaining roundsTest * 2 < 2 ^ 63"
    and few: "int (length [''test1'', ''test2'']) < RoundsRemaining roundsTest * 2"
    and n: "nat (RoundsRemaining roundsTest) = 3"
    by (simp_all add: roundsTest_def)
  have enough: "RoundsRemaining roundsTest * 2 \<le> int (length testSetups)"
    by (simp add: roundsTest_def testSetups_def)
  have d: "distinct testSetups"
    by (simp add: testSetups_def)
  have "{..<6::nat} = {0, 1, 2, 3, 4, 5}" by auto
  then have "(\<lambda>k. counting k mod length testSetups) ` {..<6} = {0, 1, 2, 3, 4, 5}"
    by (simp add: counting_def testSetups_def)
  then have draws: "RoundsRemaining roundsTest * 2
      \<le> int (card ((\<lambda>k. counting k mod length testSetups) ` {..<6}))"
    by (simp add: roundsTest_def)
  from createRounds_rounds[of roundsTest "[''test1'', ''test2'']" 6 counting] r few
  have 1: "createRounds 6 counting [''test1'', ''test2''] roundsTest
      = Some (Some ErrTooFewSetups, roundsTest)"
    by simp
  from createRounds_rounds[of roundsTest testSetups 6 counting] r enough draws d n
  have 2: "createRounds 6 counting testSetups roundsTest \<noteq> None"
    and 3: "\<And>e g'. createRounds 6 counting testSetups roundsTest = Some (e, g') \<Longrightarrow>
           e = None \<and> length (Rounds g') = 3 \<and> distinct (setupCards (Rounds g'))"
    by auto
  from 2 obtain e g' where s: "createRounds 6 counting testSetups roundsTest = Some (e, g')"
    by auto
  from 3[OF s] s 1 show ?thesis by simp
qed

text \<open>
  The claim as written fails on a list that holds a card twice: the two positions of
  the round hold the same card.
\<close>

theorem createRounds_equal_cards_counterexample:
  "int (length [''s'', ''s'']) \<ge> RoundsRemaining (roundsTest\<lparr>RoundsRemaining := 1\<rparr>) * 2
   \<and> createRounds 2 counting [''s'', ''s''] (roundsTest\<lparr>RoundsRemaining := 1\<rparr>)
     = Some (None, roundsTest\<lparr>RoundsRemaining := 1,
                 Rounds := [zeroRound\<lparr>Setup := (''s'', ''s'')\<rparr>]\<rparr>)"
  by code_simp

section \<open>Card eligibility\<close>

lemma ranks_scale:
  "ranks ''G'' = Some 0 \<and> ranks ''PG'' = Some 1 \<and> ranks ''PG-13'' = Some 2
   \<and> ranks ''R'' = Some 3 \<and> ranks ''X'' = Some 4
   \<and> (ranks s \<noteq> None \<longleftrightarrow> s \<in> {''G'', ''PG'', ''PG-13'', ''R'', ''X''})"
  by (auto simp: ranks_def)

text \<open>
  Once the reader has seen a record of two fields, or before it has seen any, rows of
  two columns with a rating of the scale pass its check and the checks of the loop.
\<close>

lemma getCardsCsv_loop_good:
  "ranks cleanliness = Some t \<Longrightarrow> fieldsPerRecord = 0 \<or> fieldsPerRecord = 2 \<Longrightarrow>
   list_all wellFormed rows \<Longrightarrow>
   getCardsCsv_loop trimSpace fieldsPerRecord (map Record rows) cleanliness cards
     = Inr (cards @ map (\<lambda>line. trimSpace (line ! 0)) (filter (eligible t) rows))"
proof (induction rows arbitrary: cards fieldsPerRecord)
  case Nil
  then show ?case by simp
next
  case (Cons line rows)
  then obtain c where c: "ranks (line ! 1) = Some c" and l: "length line = 2"
    by (auto simp: wellFormed_def)
  have rest: "list_all wellFormed rows" using Cons.prems by simp
  have two: "(2::nat) = 0 \<or> (2::nat) = 2" by simp
  note IH = Cons.IH[OF Cons.prems(1) two rest]
  from Cons.prems(2) show ?case
  proof
    assume "fieldsPerRecord = 0"
    then show ?thesis using IH c l Cons.prems(1)
      by (simp add: isCleanEnough_def eligible_def Let_def)
  next
    assume "fieldsPerRecord = 2"
    then show ?thesis using IH c l Cons.prems(1)
      by (simp add: isCleanEnough_def eligible_def Let_def)
  qed
qed

text \<open>
  After a record of two fields, the first row that is not well formed ends the loop:
  with the error of the reader when its width is not two, with \<^verbatim>\<open>ErrMalformedCSV\<close> when
  its rating is outside the scale.
\<close>

lemma getCardsCsv_loop_later:
  "ranks cleanliness = Some t \<Longrightarrow> \<not> list_all wellFormed rows \<Longrightarrow>
   getCardsCsv_loop trimSpace 2 (map Record rows) cleanliness cards
     = Inl (if length (hd (dropWhile wellFormed rows)) \<noteq> 2 then ErrFieldCount
            else ErrMalformedCSV)"
proof (induction rows arbitrary: cards)
  case Nil
  then show ?case by simp
next
  case (Cons line rows)
  show ?case
  proof (cases "wellFormed line")
    case True
    then obtain c where c: "ranks (line ! 1) = Some c" and l: "length line = 2"
      by (auto simp: wellFormed_def)
    from True Cons.prems have "\<not> list_all wellFormed rows" by simp
    from Cons.IH[OF Cons.prems(1) this] c l True Cons.prems(1) show ?thesis
      by (simp add: isCleanEnough_def Let_def)
  next
    case False
    then show ?thesis
      using Cons.prems(1) by (auto simp: wellFormed_def isCleanEnough_def Let_def)
  qed
qed

lemma getCardsCsv_loop_first:
  assumes "ranks cleanliness = Some t" and "\<not> list_all wellFormed rows"
  shows "getCardsCsv_loop trimSpace 0 (map Record rows) cleanliness cards
     = Inl (if wellFormed (hd rows) \<and> length (hd (dropWhile wellFormed rows)) \<noteq> 2
            then ErrFieldCount else ErrMalformedCSV)"
proof (cases rows)
  case Nil
  with assms(2) show ?thesis by simp
next
  case (Cons line rest)
  show ?thesis
  proof (cases "wellFormed line")
    case True
    then obtain c where c: "ranks (line ! 1) = Some c" and l: "length line = 2"
      by (auto simp: wellFormed_def)
    from True assms(2) Cons have bad: "\<not> list_all wellFormed rest" by simp
    have "getCardsCsv_loop trimSpace 0 (map Record rows) cleanliness cards
        = getCardsCsv_loop trimSpace 2 (map Record rest) cleanliness
            (if c \<le> t then cards @ [trimSpace (line ! 0)] else cards)"
      using Cons c l assms(1) by (simp add: isCleanEnough_def Let_def)
    then show ?thesis
      using getCardsCsv_loop_later[OF assms(1) bad, of trimSpace] Cons True by simp
  next
    case False
    then show ?thesis
      using Cons assms(1) by (auto simp: wellFormed_def isCleanEnough_def Let_def)
  qed
qed

text \<open>
  Claim C9, as the code has it. For a threshold of the scale \<open>G < PG < PG-13 < R < X\<close>,
  with rank \<open>t\<close>: \<^verbatim>\<open>isCleanEnough\<close> accepts a rating exactly when its rank is at most
  \<open>t\<close> and fails with \<^verbatim>\<open>ErrMalformedCSV\<close> on a rating outside the scale. When every
  row has two columns and a rating of the scale, \<^verbatim>\<open>getCardsCsv\<close> returns the texts of
  the eligible rows, in order, and of no other row. Otherwise loading fails at the first
  row that has not: with \<^verbatim>\<open>ErrMalformedCSV\<close> when that row is the first row of the file
  or has two columns (its rating is outside the scale), and with the error
  \<^verbatim>\<open>csv.ErrFieldCount\<close> of the reader when it is a later row without exactly two columns.
\<close>

theorem getCardsCsv_eligible:
  "ranks ''G'' = Some 0 \<and> ranks ''PG'' = Some 1 \<and> ranks ''PG-13'' = Some 2
   \<and> ranks ''R'' = Some 3 \<and> ranks ''X'' = Some 4
   \<and> (ranks rating \<noteq> None \<longleftrightarrow> rating \<in> {''G'', ''PG'', ''PG-13'', ''R'', ''X''})
   \<and> (ranks cleanliness = Some t \<longrightarrow>
     (isCleanEnough rating cleanliness
        = (case ranks rating of None \<Rightarrow> Inl ErrMalformedCSV | Some c \<Rightarrow> Inr (c \<le> t)))
     \<and> (list_all wellFormed rows \<longrightarrow>
          getCardsCsv trimSpace (Inr (map Record rows)) cleanliness
            = Inr (map (\<lambda>line. trimSpace (line ! 0)) (filter (eligible t) rows)))
     \<and> (\<not> list_all wellFormed rows \<longrightarrow>
          getCardsCsv trimSpace (Inr (map Record rows)) cleanliness
            = Inl (if wellFormed (hd rows) \<and> length (hd (dropWhile wellFormed rows)) \<noteq> 2
                   then ErrFieldCount else ErrMalformedCSV)))"
proof -
  have 1: "isCleanEnough rating cleanliness
        = (case ranks rating of None \<Rightarrow> Inl ErrMalformedCSV | Some c \<Rightarrow> Inr (c \<le> t))"
    if "ranks cleanliness = Some t"
    using that by (simp add: isCleanEnough_def split: option.splits)
  have 2: "getCardsCsv trimSpace (Inr (map Record rows)) cleanliness
            = Inr (map (\<lambda>line. trimSpace (line ! 0)) (filter (eligible t) rows))"
    if t: "ranks cleanliness = Some t" and good: "list_all wellFormed rows"
  proof -
    have "(0::nat) = 0 \<or> (0::nat) = 2" by simp
    from getCardsCsv_loop_good[OF t this good, of trimSpace "[]"] show ?thesis
      by (simp add: getCardsCsv_def)
  qed
  have 3: "getCardsCsv trimSpace (Inr (map Record rows)) cleanliness
            = Inl (if wellFormed (hd rows) \<and> length (hd (dropWhile wellFormed rows)) \<noteq> 2
                   then ErrFieldCount else ErrMalformedCSV)"
    if t: "ranks cleanliness = Some t" and bad: "\<not> list_all wellFormed rows"
    using getCardsCsv_loop_first[OF t bad, of trimSpace "[]"] by (simp add: getCardsCsv_def)
  from ranks_scale[of rating] 1 2 3 show ?thesis by blast
qed

text \<open>
  The rows of \<^verbatim>\<open>TestGetCardsCsv\<close>; the same rows followed by a row with a rating outside
  the scale, and by a row of three columns; and a file whose first row has three columns.
\<close>

theorem getCardsCsv_eligible_witness:
  "getCardsCsv id (Inr (map Record csvTest)) ''R'' = Inr [''test'', ''test2'', ''test3'']
   \<and> getCardsCsv id (Inr (map Record csvTest)) ''G'' = Inr [''test3'']
   \<and> getCardsCsv id (Inr (map Record (csvTest @ [[''test4'', ''NC-17'']]))) ''G'' = Inl ErrMalformedCSV
   \<and> getCardsCsv id (Inr (map Record (csvTest @ [[''test4'', ''G'', ''G'']]))) ''G'' = Inl ErrFieldCount
   \<and> getCardsCsv id (Inr (map Record ([''test4'', ''G'', ''G''] # csvTest))) ''G'' = Inl ErrMalformedCSV
   \<and> isCleanEnough ''PG-13'' ''R'' = Inr True
   \<and> isCleanEnough ''X'' ''R'' = Inr False"
proof -
  have r: "ranks ''R'' = Some 3" "ranks ''G'' = Some 0" "ranks ''PG-13'' = Some 2" "ranks ''X'' = Some 4"
    by (simp_all add: ranks_def)
  have good: "list_all wellFormed csvTest"
    and bad: "\<not> list_all wellFormed (csvTest @ [[''test4'', ''NC-17'']])"
      "\<not> list_all wellFormed (csvTest @ [[''test4'', ''G'', ''G'']])"
      "\<not> list_all wellFormed ([''test4'', ''G'', ''G''] # csvTest)"
    by (simp_all add: csvTest_def wellFormed_def ranks_def)
  have f: "map (\<lambda>line. id (line ! 0)) (filter (eligible 3) csvTest) = [''test'', ''test2'', ''test3'']"
    "map (\<lambda>line. id (line ! 0)) (filter (eligible 0) csvTest) = [''test3'']"
    by (simp_all add: csvTest_def eligible_def ranks_def)
  have w: "wellFormed (hd (csvTest @ [[''test4'', ''NC-17'']]))"
    "length (hd (dropWhile wellFormed (csvTest @ [[''test4'', ''NC-17'']]))) = 2"
    "wellFormed (hd (csvTest @ [[''test4'', ''G'', ''G'']]))"
    "length (hd (dropWhile wellFormed (csvTest @ [[''test4'', ''G'', ''G'']]))) = 3"
    "\<not> wellFormed (hd ([''test4'', ''G'', ''G''] # csvTest))"
    by (simp_all add: csvTest_def wellFormed_def ranks_def)
  from getCardsCsv_eligible[where cleanliness = "''R''" and t = 3 and rating = "''PG-13''"
      and rows = "csvTest" and trimSpace = id] r good f
  have 1: "getCardsCsv id (Inr (map Record csvTest)) ''R'' = Inr [''test'', ''test2'', ''test3'']"
    "isCleanEnough ''PG-13'' ''R'' = Inr True"
    by simp_all
  from getCardsCsv_eligible[where cleanliness = "''R''" and t = 3 and rating = "''X''"
      and rows = "csvTest" and trimSpace = id] r
  have 2: "isCleanEnough ''X'' ''R'' = Inr False" by simp
  from getCardsCsv_eligible[where cleanliness = "''G''" and t = 0 and rating = "''X''"
      and rows = "csvTest" and trimSpace = id] r good f
  have 3: "getCardsCsv id (Inr (map Record csvTest)) ''G'' = Inr [''test3'']" by simp
  from getCardsCsv_eligible[where cleanliness = "''G''" and t = 0 and rating = "''X''"
      and rows = "csvTest @ [[''test4'', ''NC-17'']]" and trimSpace = id] r bad w
  have 4: "getCardsCsv id (Inr (map Record (csvTest @ [[''test4'', ''NC-17'']]))) ''G'' = Inl ErrMalformedCSV"
    by simp
  from getCardsCsv_eligible[where cleanliness = "''G''" and t = 0 and rating = "''X''"
      and rows = "csvTest @ [[''test4'', ''G'', ''G'']]" and trimSpace = id] r bad w
  have 5: "getCardsCsv id (Inr (map Record (csvTest @ [[''test4'', ''G'', ''G'']]))) ''G'' = Inl ErrFieldCount"
    by simp
  from getCardsCsv_eligible[where cleanliness = "''G''" and t = 0 and rating = "''X''"
      and rows = "[''test4'', ''G'', ''G''] # csvTest" and trimSpace = id] r bad w
  have 6: "getCardsCsv id (Inr (map Record ([''test4'', ''G'', ''G''] # csvTest))) ''G'' = Inl ErrMalformedCSV"
    by simp
  from 1 2 3 4 5 6 show ?thesis by simp
qed

text \<open>
  The claim as written fails on a row without exactly two columns that is not the first
  row of the file: loading fails with the error of the csv reader, not with
  \<^verbatim>\<open>ErrMalformedCSV\<close>.
\<close>

theorem later_row_width_counterexample:
  "length [''test4'', ''G'', ''G''] \<noteq> 2
   \<and> getCardsCsv id (Inr (map Record (csvTest @ [[''test4'', ''G'', ''G'']]))) ''G''
       = Inl ErrFieldCount"
  by code_simp

section \<open>Identifier allocation\<close>

lemma findID_loop_Inr:
  "findID_loop i rnd now games = (Inr gid, games') \<Longrightarrow>
   \<exists>k. i \<le> k \<and> k < maxAttempts \<and> gid = int (rnd k mod 99)
     \<and> (fmlookup games gid = None \<and> games' = games
        \<or> (\<exists>game. fmlookup games gid = Some (Some game)
              \<and> now k < Created game + hour * 12 \<and> games' = fmupd gid None games))"
proof (induction i rnd now games rule: findID_loop.induct)
  case (1 i rnd now games)
  show ?case
  proof (cases "i < maxAttempts")
    case False
    with "1.prems" show ?thesis by (simp add: findID_loop.simps)
  next
    case True
    let ?id = "int (rnd i mod 99)"
    show ?thesis
    proof (cases "fmlookup games ?id")
      case None
      with "1.prems" True have "gid = ?id" "games' = games"
        by (auto simp: findID_loop.simps[of i] Let_def)
      with None True show ?thesis by (intro exI[of _ i]) simp
    next
      case (Some entry)
      show ?thesis
      proof (cases entry)
        case None
        with "1.prems" True Some show ?thesis by (simp add: findID_loop.simps[of i] Let_def)
      next
        case (Some game)
        show ?thesis
        proof (cases "now i < Created game + hour * 12")
          case young: True
          with "1.prems" True \<open>fmlookup games ?id = Some entry\<close> Some
          have "gid = ?id" "games' = fmupd ?id None games"
            by (auto simp: findID_loop.simps[of i] Let_def)
          with young True \<open>fmlookup games ?id = Some entry\<close> Some show ?thesis
            by (intro exI[of _ i]) simp
        next
          case old: False
          with "1.prems" True \<open>fmlookup games ?id = Some entry\<close> Some
          have next_probe: "findID_loop (Suc i) rnd now games = (Inr gid, games')"
            by (simp add: findID_loop.simps[of i] Let_def)
          from "1.IH"[OF True refl \<open>fmlookup games ?id = Some entry\<close> Some _ next_probe] old
          obtain k where "Suc i \<le> k" "k < maxAttempts" "gid = int (rnd k mod 99)"
            "fmlookup games gid = None \<and> games' = games
             \<or> (\<exists>game. fmlookup games gid = Some (Some game)
                  \<and> now k < Created game + hour * 12 \<and> games' = fmupd gid None games)"
            by auto
          then show ?thesis by (intro exI[of _ k]) simp
        qed
      qed
    qed
  qed
qed

lemma findID_loop_expired:
  assumes "\<forall>j<99. \<exists>game. fmlookup games (int j) = Some (Some game)
             \<and> (\<forall>k<maxAttempts. Created game + hour * 12 \<le> now k)"
  shows "findID_loop i rnd now games = (Inl ErrNoGamesAvailable, games)"
proof (induction "maxAttempts - i" arbitrary: i)
  case 0
  then show ?case by (simp add: findID_loop.simps[of i] Let_def)
next
  case (Suc d)
  then have i: "i < maxAttempts" by simp
  have "rnd i mod 99 < 99" by simp
  with assms obtain game where
    g: "fmlookup games (int (rnd i mod 99)) = Some (Some game)"
    and old: "\<forall>k<maxAttempts. Created game + hour * 12 \<le> now k"
    by blast
  from old i have "\<not> now i < Created game + hour * 12" by (simp add: not_less)
  moreover have "findID_loop (Suc i) rnd now games = (Inl ErrNoGamesAvailable, games)"
    using Suc by simp
  ultimately show ?case using i g by (simp add: findID_loop.simps[of i] Let_def)
qed

lemma findID_loop_live:
  assumes "\<forall>j<99. \<exists>game. fmlookup games (int j) = Some (Some game)
             \<and> now 0 < Created game + hour * 12"
  shows "findID_loop 0 rnd now games
     = (Inr (int (rnd 0 mod 99)), fmupd (int (rnd 0 mod 99)) None games)"
proof -
  have "rnd 0 mod 99 < 99" by simp
  with assms obtain game where
    "fmlookup games (int (rnd 0 mod 99)) = Some (Some game)"
    "now 0 < Created game + hour * 12"
    by blast
  then show ?thesis by (simp add: findID_loop.simps[of 0] maxAttempts_def Let_def)
qed

text \<open>
  Claim C4 against the code. \<^verbatim>\<open>findID\<close> compares the wrong way round: it hands out an
  identifier that is unused, or one whose game was created less than twelve hours
  before the probe, and it passes over the identifiers of older games. A registry whose
  99 identifiers all hold games of twelve hours or more yields \<^verbatim>\<open>ErrNoGamesAvailable\<close>,
  and one whose identifiers all hold younger games loses a game at the first probe.
\<close>

theorem findID_reclaims_young:
  "(findID rnd now games = (Inr gid, games') \<longrightarrow>
      (\<exists>k<maxAttempts. gid = int (rnd k mod 99)
         \<and> (fmlookup games gid = None \<and> games' = games
            \<or> (\<exists>game. fmlookup games gid = Some (Some game)
                  \<and> now k < Created game + hour * 12 \<and> games' = fmupd gid None games))))
   \<and> ((\<forall>j<99. \<exists>game. fmlookup games (int j) = Some (Some game)
             \<and> (\<forall>k<maxAttempts. Created game + hour * 12 \<le> now k)) \<longrightarrow>
       findID rnd now games = (Inl ErrNoGamesAvailable, games))
   \<and> ((\<forall>j<99. \<exists>game. fmlookup games (int j) = Some (Some game)
             \<and> now 0 < Created game + hour * 12) \<longrightarrow>
       findID rnd now games
         = (Inr (int (rnd 0 mod 99)), fmupd (int (rnd 0 mod 99)) None games))"
  using findID_loop_Inr[of 0 rnd now games gid games'] findID_loop_expired[of games now 0 rnd]
    findID_loop_live[of games now rnd]
  by (auto simp: findID_def)

lemma saturated_lookup: "j < 99 \<Longrightarrow> fmlookup (saturated g) (int j) = Some (Some g)"
proof -
  have "map_of (map (\<lambda>i. (int i, Some g)) xs) (int j) = Some (Some g)" if "j \<in> set xs" for xs
    using that by (induction xs) auto
  from this[of "[0..<99]"] show "j < 99 \<Longrightarrow> fmlookup (saturated g) (int j) = Some (Some g)"
    by (simp add: saturated_def fmlookup_of_list)
qed

text \<open>
  A registry full of one game: one hour after the game was created identifier 0 is
  taken from it, thirteen hours after no identifier is available.
\<close>

theorem findID_reclaims_young_witness:
  "findID counting (clockAt hour) (saturated session)
     = (Inr 0, fmupd 0 None (saturated session))
   \<and> findID counting (clockAt (hour * 13)) (saturated session)
     = (Inl ErrNoGamesAvailable, saturated session)"
proof -
  have c: "Created session = 0" by (simp add: session_def)
  have live: "\<forall>j<99. \<exists>game. fmlookup (saturated session) (int j) = Some (Some game)
             \<and> clockAt hour 0 < Created game + hour * 12"
    using saturated_lookup[of _ session] c by (auto simp: clockAt_def hour_def)
  have expired: "\<forall>j<99. \<exists>game. fmlookup (saturated session) (int j) = Some (Some game)
             \<and> (\<forall>k<maxAttempts. Created game + hour * 12 \<le> clockAt (hour * 13) k)"
    using saturated_lookup[of _ session] c by (auto simp: clockAt_def hour_def)
  from findID_reclaims_young[of counting "clockAt hour" "saturated session" 0 "saturated session"] live
  have 1: "findID counting (clockAt hour) (saturated session)
     = (Inr 0, fmupd 0 None (saturated session))"
    by (simp add: counting_def)
  from findID_reclaims_young[of counting "clockAt (hour * 13)" "saturated session" 0 "saturated session"]
    expired
  have 2: "findID counting (clockAt (hour * 13)) (saturated session)
     = (Inl ErrNoGamesAvailable, saturated session)"
    by simp
  from 1 2 show ?thesis by simp
qed

end
